theory Spec2Isabelle
  imports Main
begin

section \<open>Runtime values used by the version scripts\<close>

text \<open>
  The scripts are TypeScript. Text is modelled as \<open>string\<close>, one \<open>char\<close> per
  code unit (the manifests are ASCII). A JavaScript number is modelled on the
  integers, the values a version component takes, together with \<open>NaN\<close>;
  arithmetic is exact, as it is in a double for magnitudes below \<open>2^53\<close>.
\<close>

datatype number = NaN | Num int


definition digit_char :: "nat \<Rightarrow> char" where
  "digit_char d = ''0123456789'' ! d"

fun digits_of :: "nat \<Rightarrow> string" where
  "digits_of n = (if n < 10 then [digit_char n] else digits_of (n div 10) @ [digit_char (n mod 10)])"

declare digits_of.simps [simp del]

text \<open>Number to text, as a template literal \<open>`${n}`\<close> renders an integer.\<close>

definition show_int :: "int \<Rightarrow> string" where
  "show_int i = (if i < 0 then CHR ''-'' # digits_of (nat (- i)) else digits_of (nat i))"



text \<open>White space in the sense of \<open>\s\<close> and of \<open>String.prototype.trim\<close>, within one byte:
  tab, line feed, vertical tab, form feed, carriage return, space, no-break space.\<close>

definition is_space :: "char \<Rightarrow> bool" where
  "is_space c = (of_char c \<in> {9::nat, 10, 11, 12, 13, 32, 160})"

definition trim :: "string \<Rightarrow> string" where
  "trim s = rev (dropWhile is_space (rev (dropWhile is_space s)))"

definition digit_val :: "char \<Rightarrow> nat option" where
  "digit_val c = map_of [(CHR ''0'', 0), (CHR ''1'', 1), (CHR ''2'', 2), (CHR ''3'', 3),
     (CHR ''4'', 4), (CHR ''5'', 5), (CHR ''6'', 6), (CHR ''7'', 7), (CHR ''8'', 8),
     (CHR ''9'', 9)] c"

text \<open>The value of a run of decimal digits; \<open>None\<close> when a character is not a digit.\<close>

fun decimal :: "nat \<Rightarrow> string \<Rightarrow> nat option" where
  "decimal acc [] = Some acc"
| "decimal acc (c # cs) =
     (case digit_val c of None \<Rightarrow> None | Some d \<Rightarrow> decimal (10 * acc + d) cs)"

definition unsigned :: "string \<Rightarrow> number" where
  "unsigned s = (if s = [] then NaN else case decimal 0 s of None \<Rightarrow> NaN | Some n \<Rightarrow> Num (int n))"

fun negate :: "number \<Rightarrow> number" where
  "negate NaN = NaN"
| "negate (Num n) = Num (- n)"

text \<open>
  \<open>Number(s)\<close> on the text of a version component: surrounding white space is
  dropped, the empty text is \<open>0\<close>, an optional sign and decimal digits give the
  integer, and text that is no numeric literal gives \<open>NaN\<close>. The other literal
  forms of the language (hexadecimal, exponent, \<open>Infinity\<close>) lie outside the
  integers modelled here and are not distinguished from the last case.
\<close>

definition Number :: "string \<Rightarrow> number" where
  "Number s =
     (let t = trim s in
      if t = [] then Num 0
      else case t of
        c # r \<Rightarrow>
          if c = CHR ''+'' then unsigned r
          else if c = CHR ''-'' then negate (unsigned r)
          else unsigned t)"

text \<open>\<open>s.split('.')\<close>: the pieces between the dots; the empty text gives one empty piece.\<close>

fun split_acc :: "string \<Rightarrow> string \<Rightarrow> string list" where
  "split_acc cur [] = [rev cur]"
| "split_acc cur (c # cs) =
     (if c = CHR ''.'' then rev cur # split_acc [] cs else split_acc (c # cur) cs)"

definition split_dot :: "string \<Rightarrow> string list" where
  "split_dot s = split_acc [] s"

text \<open>Array destructuring \<open>[a, b, c] = xs\<close>: a missing element is \<open>undefined\<close>.\<close>

definition nth_opt :: "'a list \<Rightarrow> nat \<Rightarrow> 'a option" where
  "nth_opt xs i = (if i < length xs then Some (xs ! i) else None)"

text \<open>The global \<open>isNaN\<close>: \<open>undefined\<close> converts to \<open>NaN\<close>.\<close>

fun isNaN :: "number option \<Rightarrow> bool" where
  "isNaN None = True"
| "isNaN (Some NaN) = True"
| "isNaN (Some (Num n)) = False"

section \<open>Workflow orchestrator: versions (scripts/workflow.ts)\<close>

record Version =
  major :: int
  minor :: int
  patch :: int

datatype bump_kind = Major | Minor | Patch

datatype version_error = InvalidVersionFormat string

text \<open>\<open>parseVersion\<close>: the first three pieces of \<open>versionStr.split('.').map(Number)\<close>;
  throws when one of the three is \<open>NaN\<close> or missing. After the check the
  components are integers, which is what the record holds.\<close>

definition parseVersion :: "string \<Rightarrow> version_error + Version" where
  "parseVersion versionStr =
     (let parts = map Number (split_dot versionStr);
          major = nth_opt parts 0; minor = nth_opt parts 1; patch = nth_opt parts 2
      in if list_ex isNaN [major, minor, patch] then Inl (InvalidVersionFormat versionStr)
         else case (major, minor, patch) of
           (Some (Num a), Some (Num b), Some (Num c)) \<Rightarrow> Inr \<lparr>major = a, minor = b, patch = c\<rparr>
         | _ \<Rightarrow> Inl (InvalidVersionFormat versionStr))"

definition formatVersion :: "Version \<Rightarrow> string" where
  "formatVersion v = show_int (major v) @ ''.'' @ show_int (minor v) @ ''.'' @ show_int (patch v)"

fun bumpVersion :: "Version \<Rightarrow> bump_kind \<Rightarrow> Version" where
  "bumpVersion current Major = \<lparr>major = major current + 1, minor = 0, patch = 0\<rparr>"
| "bumpVersion current Minor = \<lparr>major = major current, minor = minor current + 1, patch = 0\<rparr>"
| "bumpVersion current Patch =
     \<lparr>major = major current, minor = minor current, patch = patch current + 1\<rparr>"

section \<open>Commit script: versions on text\<close>




section \<open>Build script: data model (scripts/build.ts)\<close>

datatype Mode = Debug | Release

fun mode_text :: "Mode \<Rightarrow> string" where
  "mode_text Debug = ''debug''"
| "mode_text Release = ''release''"

record BuildOptions =
  mode :: Mode
  features :: "string list"
  parallel :: bool
  verbose :: bool

text \<open>The optional field \<open>target\<close> is \<open>None\<close> when absent; the optional flags
  \<open>requiresDocker\<close> and \<open>requiresCross\<close> are only tested for truth, so absent is \<open>False\<close>.\<close>

record Platform =
  platform_id :: string
  label :: string
  description :: string
  target :: "string option"
  buildCommand :: "BuildOptions \<Rightarrow> string"
  requiresDocker :: bool
  requiresCross :: bool

record BuildResult =
  platform :: Platform
  success :: bool
  duration :: int
  error :: "string option"
  outputPath :: "string option"

text \<open>\<open>xs.join(sep)\<close>.\<close>

fun join_with :: "string \<Rightarrow> string list \<Rightarrow> string" where
  "join_with sep [] = []"
| "join_with sep [x] = x"
| "join_with sep (x # y # ys) = x @ sep @ join_with sep (y # ys)"

definition release_flag :: "BuildOptions \<Rightarrow> string" where
  "release_flag opts = (if mode opts = Release then ''--release'' else [])"

definition cross_command :: "string \<Rightarrow> BuildOptions \<Rightarrow> string" where
  "cross_command triple opts =
     ''cross build '' @ release_flag opts @ '' --target '' @ triple @ '' --features '' @
     join_with '','' (features opts)"

definition docker_command :: "string \<Rightarrow> string \<Rightarrow> BuildOptions \<Rightarrow> string" where
  "docker_command triple tag opts =
     ''docker build -f Dockerfile.android --build-arg ANDROID_TARGET='' @ triple @
     '' --build-arg CARGO_FEATURES='' @ join_with '','' (features opts) @ '' -t '' @ tag @ '' .''"

definition cargo_command :: "BuildOptions \<Rightarrow> string" where
  "cargo_command opts =
     ''cargo build '' @ release_flag opts @ '' --features '' @ join_with '','' (features opts) @
     '' --workspace''"

definition cross_platform :: "string \<Rightarrow> string \<Rightarrow> string \<Rightarrow> string \<Rightarrow> Platform" where
  "cross_platform i l d triple =
     \<lparr>platform_id = i, label = l, description = d, target = Some triple,
      buildCommand = cross_command triple, requiresDocker = False, requiresCross = True\<rparr>"

definition docker_platform :: "string \<Rightarrow> string \<Rightarrow> string \<Rightarrow> string \<Rightarrow> Platform" where
  "docker_platform i l d triple =
     \<lparr>platform_id = i, label = l, description = d, target = Some triple,
      buildCommand = docker_command triple (''quiche-nwep-'' @ i),
      requiresDocker = True, requiresCross = False\<rparr>"

definition PLATFORMS :: "Platform list" where
  "PLATFORMS =
    [cross_platform ''windows-x64-gnu'' ''Windows x64 (GNU)''
       ''Windows 64-bit with MinGW-w64 toolchain'' ''x86_64-pc-windows-gnu'',
     cross_platform ''windows-x64-msvc'' ''Windows x64 (MSVC)''
       ''Windows 64-bit with MSVC toolchain'' ''x86_64-pc-windows-msvc'',
     docker_platform ''android-arm64'' ''Android ARM64''
       ''Android ARM64 (modern phones)'' ''aarch64-linux-android'',
     docker_platform ''android-arm32'' ''Android ARM32''
       ''Android ARMv7 (older devices)'' ''armv7-linux-androideabi'',
     docker_platform ''android-x64'' ''Android x86_64''
       ''Android x86_64 (emulators)'' ''x86_64-linux-android'',
     docker_platform ''android-x86'' ''Android x86''
       ''Android x86 (older emulators)'' ''i686-linux-android'',
     cross_platform ''linux-arm64'' ''Linux ARM64''
       ''Linux AArch64 (ARM servers, Raspberry Pi)'' ''aarch64-unknown-linux-gnu'',
     cross_platform ''linux-armv7'' ''Linux ARMv7''
       ''Linux ARMv7 (Raspberry Pi 32-bit)'' ''armv7-unknown-linux-gnueabihf'',
     \<lparr>platform_id = ''native'', label = ''Native (current platform)'',
      description = ''Build for your current platform'', target = None,
      buildCommand = cargo_command, requiresDocker = False, requiresCross = False\<rparr>]"

section \<open>Build script: the build executor\<close>

text \<open>
  What the spawned child does is given by the environment: the data it writes
  to its two pipes, the event that settles the promise (\<open>close\<close> with an exit
  code, \<open>null\<close> when a signal ended it, or \<open>error\<close> with the message of the
  runtime's error object), and the clock readings at the call and at the event.
\<close>

datatype child_event = Close "int option" | Error string

record child_run =
  stdout_chunks :: "string list"
  stderr_chunks :: "string list"
  settled_by :: child_event
  started_at :: int
  settled_at :: int

text \<open>\<open>a || b\<close> on text: the empty text is falsy.\<close>

definition or_else :: "string \<Rightarrow> string \<Rightarrow> string" where
  "or_else a b = (if a \<noteq> [] then a else b)"

text \<open>\<open>`${code}`\<close> for an exit code that may be \<open>null\<close>.\<close>

fun show_code :: "int option \<Rightarrow> string" where
  "show_code None = ''null''"
| "show_code (Some n) = show_int n"

text \<open>\<open>platform.target ? ... : ...\<close>: an absent or empty triple is falsy.\<close>

definition output_path :: "Platform \<Rightarrow> BuildOptions \<Rightarrow> string" where
  "output_path p options =
     (case target p of
        Some t \<Rightarrow>
          if t \<noteq> [] then ''target/'' @ t @ ''/'' @ mode_text (mode options) @ ''/''
          else ''target/'' @ mode_text (mode options) @ ''/''
      | None \<Rightarrow> ''target/'' @ mode_text (mode options) @ ''/'')"

text \<open>
  \<open>buildPlatform\<close>. The command is built from the platform's template and handed
  to the environment \<open>spawn\<close>. The data handlers are attached only when
  \<open>verbose\<close> is off; with it on the child writes to the console and nothing is
  collected. Console output is not part of the result and is left out.
\<close>

definition buildPlatform :: "(string \<Rightarrow> child_run) \<Rightarrow> Platform \<Rightarrow> BuildOptions \<Rightarrow> BuildResult" where
  "buildPlatform spawn p options =
     (let command = buildCommand p options;
          child = spawn command;
          output = (if \<not> verbose options then concat (stdout_chunks child) else []);
          errorOutput = (if \<not> verbose options then concat (stderr_chunks child) else []);
          elapsed = settled_at child - started_at child
      in case settled_by child of
           Close code \<Rightarrow>
             if code = Some 0 then
               \<lparr>platform = p, success = True, duration = elapsed, error = None,
                outputPath = Some (output_path p options)\<rparr>
             else
               \<lparr>platform = p, success = False, duration = elapsed,
                error = Some (or_else errorOutput
                          (or_else output (''Build failed with exit code '' @ show_code code))),
                outputPath = None\<rparr>
         | Error message \<Rightarrow>
             \<lparr>platform = p, success = False, duration = elapsed, error = Some message,
              outputPath = None\<rparr>)"

section \<open>Build script: running the selected platforms\<close>

text \<open>
  \<open>Promise.all\<close> over promises that all fulfil: each value is stored in the slot
  of its promise when that promise settles, and the array is delivered once
  every slot is filled. \<open>order\<close> lists the indices in the order of settling;
  while a slot is empty the \<open>await\<close> has not returned (\<open>None\<close>).
\<close>

definition fill_slot :: "'a list \<Rightarrow> nat \<Rightarrow> 'a option list \<Rightarrow> 'a option list" where
  "fill_slot values i slots = (if i < length values then slots[i := Some (values ! i)] else slots)"

definition promise_all :: "'a list \<Rightarrow> nat list \<Rightarrow> 'a list option" where
  "promise_all values order =
     (let slots = fold (fill_slot values) order (replicate (length values) None)
      in if list_ex Option.is_none slots then None else Some (map the slots))"



section \<open>The regular expressions of the version scripts\<close>

text \<open>
  The scripts use regular expressions built from literals, \<open>\s*\<close>, one \<open>[^"]+\<close>,
  and in one case a trailing \<open>.*$\<close>, anchored by \<open>^\<close> under the \<open>m\<close> flag. Every
  \<open>\s*\<close> is followed by a literal that is no white space and \<open>[^"]+\<close> by a
  quote, so the greedy choice is the only one that can succeed and the
  backtracking matcher is this deterministic scan.
\<close>

definition is_line_terminator :: "char \<Rightarrow> bool" where
  "is_line_terminator c = (c = CHR ''\<newline>'' \<or> c = CHR 0x0D)"

definition not_quote :: "char \<Rightarrow> bool" where
  "not_quote c = (c \<noteq> CHR 0x22)"

datatype item = Lit string | Spaces

text \<open>Matching a sequence of literals and \<open>\s*\<close> at the head of the text:
  the matched text and what follows it.\<close>

fun match_items :: "item list \<Rightarrow> string \<Rightarrow> (string \<times> string) option" where
  "match_items [] s = Some ([], s)"
| "match_items (Lit l # items) s =
     (if take (length l) s = l then
        (case match_items items (drop (length l) s) of
           None \<Rightarrow> None
         | Some (m, r) \<Rightarrow> Some (l @ m, r))
      else None)"
| "match_items (Spaces # items) s =
     (case match_items items (dropWhile is_space s) of
        None \<Rightarrow> None
      | Some (m, r) \<Rightarrow> Some (takeWhile is_space s @ m, r))"

text \<open>A match of \<open>prefix [^"]+ "\<close>, or of \<open>prefix [^"]+ ".*$\<close> when \<open>to_eol\<close> is
  set: the text before the match, the prefix, the text between the quotes,
  the text from the closing quote to the end of the match, and the text after.\<close>

record regex_match =
  before :: string
  group1 :: string
  field_value :: string
  group2 :: string
  after :: string

definition match_field :: "item list \<Rightarrow> bool \<Rightarrow> string \<Rightarrow> (string \<times> string \<times> string \<times> string) option" where
  "match_field prefix to_eol s =
     (case match_items prefix s of
        None \<Rightarrow> None
      | Some (g1, r) \<Rightarrow>
          (let v = takeWhile not_quote r in
           if v = [] then None
           else case dropWhile not_quote r of
             [] \<Rightarrow> None
           | q # r' \<Rightarrow>
               if to_eol then
                 Some (g1, v, q # takeWhile (\<lambda>c. \<not> is_line_terminator c) r',
                       dropWhile (\<lambda>c. \<not> is_line_terminator c) r')
               else Some (g1, v, [q], r')))"

text \<open>The search of \<open>^...\<close> under the \<open>m\<close> flag: the first position that is the
  start of the text or follows a line terminator, and where the pattern matches.\<close>

fun search_lines :: "(string \<Rightarrow> 'a option) \<Rightarrow> string \<Rightarrow> bool \<Rightarrow> string \<Rightarrow> (string \<times> 'a) option" where
  "search_lines m skipped at_start [] =
     (if at_start then (case m [] of None \<Rightarrow> None | Some r \<Rightarrow> Some (rev skipped, r)) else None)"
| "search_lines m skipped at_start (c # cs) =
     (case (if at_start then m (c # cs) else None) of
        Some r \<Rightarrow> Some (rev skipped, r)
      | None \<Rightarrow> search_lines m (c # skipped) (is_line_terminator c) cs)"

definition regex_exec :: "item list \<Rightarrow> bool \<Rightarrow> string \<Rightarrow> regex_match option" where
  "regex_exec prefix to_eol content =
     (case search_lines (match_field prefix to_eol) [] True content of
        None \<Rightarrow> None
      | Some (b, (g1, v, g2, a)) \<Rightarrow>
          Some \<lparr>before = b, group1 = g1, field_value = v, group2 = g2, after = a\<rparr>)"

definition is_digit :: "char \<Rightarrow> bool" where
  "is_digit c = (digit_val c \<noteq> None)"

text \<open>
  The replacement text of \<open>String.prototype.replace\<close> for a template
  (\<open>GetSubstitution\<close>): \<open>$$\<close>, \<open>$&\<close>, \<open>$`\<close>, \<open>$'\<close>, and \<open>$n\<close>, \<open>$nn\<close> for the
  captures; a two-digit index beyond the number of captures is read as one
  digit followed by a literal digit, an index that names no capture stays as
  written, and so does any other \<open>$\<close>.
\<close>

definition capture_ref :: "string list \<Rightarrow> nat \<Rightarrow> string \<Rightarrow> string" where
  "capture_ref captures index written =
     (if 1 \<le> index \<and> index \<le> length captures then captures ! (index - 1) else written)"

fun get_substitution :: "string list \<Rightarrow> string \<Rightarrow> string \<Rightarrow> string \<Rightarrow> string \<Rightarrow> string" where
  "get_substitution captures matched pre post [] = []"
| "get_substitution captures matched pre post [c] = [c]"
| "get_substitution captures matched pre post (c # d # t) =
     (if c \<noteq> CHR ''$'' then c # get_substitution captures matched pre post (d # t)
      else if d = CHR ''$'' then CHR ''$'' # get_substitution captures matched pre post t
      else if d = CHR ''&'' then matched @ get_substitution captures matched pre post t
      else if d = CHR 0x60 then pre @ get_substitution captures matched pre post t
      else if d = CHR 0x27 then post @ get_substitution captures matched pre post t
      else case digit_val d of
        None \<Rightarrow> c # get_substitution captures matched pre post (d # t)
      | Some n1 \<Rightarrow>
          (case t of
             [] \<Rightarrow> capture_ref captures n1 [c, d]
           | e # t' \<Rightarrow>
               (case digit_val e of
                  None \<Rightarrow> capture_ref captures n1 [c, d] @
                            get_substitution captures matched pre post (e # t')
                | Some n2 \<Rightarrow>
                    if 10 * n1 + n2 > length captures then
                      capture_ref captures n1 [c, d] @
                      get_substitution captures matched pre post (e # t')
                    else capture_ref captures (10 * n1 + n2) [c, d, e] @
                         get_substitution captures matched pre post t')))"

text \<open>\<open>content.replace(regex, template)\<close> for a regular expression without the
  \<open>g\<close> flag: the first match is replaced; without a match the text is returned as it is.\<close>

definition string_replace :: "item list \<Rightarrow> bool \<Rightarrow> string \<Rightarrow> string \<Rightarrow> string" where
  "string_replace prefix to_eol template content =
     (case regex_exec prefix to_eol content of
        None \<Rightarrow> content
      | Some m \<Rightarrow>
          before m @
          get_substitution [group1 m, group2 m] (group1 m @ field_value m @ group2 m)
            (before m) (after m) template @
          after m)"

text \<open>\<open>/^version\s*=\s*"([^"]+)"/m\<close> and \<open>/^(version\s*=\s*")[^"]+(")/m\<close> consume
  the same text; so do the two expressions of each other pair below.\<close>

definition version_line :: "item list" where
  \<open>version_line = [Lit ''version'', Spaces, Lit ''='', Spaces, Lit ''"'']\<close>

text \<open>\<open>/^(quiche\s*=\s*\{\s*version\s*=\s*")[^"]+(")/m\<close>\<close>

definition workspace_line :: "item list" where
  \<open>workspace_line =
     [Lit ''quiche'', Spaces, Lit ''='', Spaces, Lit ''{'', Spaces,
      Lit ''version'', Spaces, Lit ''='', Spaces, Lit ''"'']\<close>


section \<open>Files\<close>

type_synonym path = string

datatype io_error = ENOENT path | EACCES path

text \<open>What the workflow does to the outside: commands run, files written,
  messages logged and questions asked, in order.\<close>

datatype event = Exec string | Wrote path string | Log string | Prompt string

text \<open>The running workflow: the files, the events so far, the number of
  commands run so far, and the variables of \<open>main\<close> that outlive a phase.\<close>

record wstate =
  files :: "path \<Rightarrow> string option"
  trace :: "event list"
  calls :: nat
  newVersion :: string
  versionChanged :: bool
  buildRan :: bool

text \<open>\<open>execSync\<close> either throws (non-zero exit, or the command could not be
  run) or returns the standard output, \<open>null\<close> when it was not captured.\<close>

datatype exec_result = Throws | Returns "string option"

text \<open>The environment: which paths can be written, and what the \<open>n\<close>-th
  command run does.\<close>

record env =
  writable :: "path \<Rightarrow> bool"
  execSync :: "nat \<Rightarrow> string \<Rightarrow> exec_result"

definition emit :: "event \<Rightarrow> wstate \<Rightarrow> wstate" where
  "emit e st = st\<lparr>trace := trace st @ [e]\<rparr>"

definition readFileSync :: "wstate \<Rightarrow> path \<Rightarrow> io_error + string" where
  "readFileSync st p = (case files st p of None \<Rightarrow> Inl (ENOENT p) | Some c \<Rightarrow> Inr c)"

definition writeFileSync :: "env \<Rightarrow> wstate \<Rightarrow> path \<Rightarrow> string \<Rightarrow> io_error + wstate" where
  "writeFileSync e st p c =
     (if writable e p then Inr (emit (Wrote p c) (st\<lparr>files := (files st)(p \<mapsto> c)\<rparr>))
      else Inl (EACCES p))"

section \<open>Workflow orchestrator: reading and writing the version\<close>

definition quiche_manifest :: path where
  "quiche_manifest = ''quiche/Cargo.toml''"

definition workspace_manifest :: path where
  "workspace_manifest = ''Cargo.toml''"

text \<open>The text-level part of \<open>getCurrentVersion\<close>: \<open>match ? match[1] : '1.0.0'\<close>.\<close>

definition current_version_of :: "string \<Rightarrow> string" where
  "current_version_of cargoToml =
     (case regex_exec version_line False cargoToml of
        Some m \<Rightarrow> field_value m
      | None \<Rightarrow> ''1.0.0'')"

definition getCurrentVersion :: "wstate \<Rightarrow> io_error + string" where
  "getCurrentVersion st =
     (case readFileSync st quiche_manifest of
        Inl err \<Rightarrow> Inl err
      | Inr cargoToml \<Rightarrow> Inr (current_version_of cargoToml))"

definition updateQuicheVersion :: "env \<Rightarrow> wstate \<Rightarrow> string \<Rightarrow> io_error + wstate" where
  "updateQuicheVersion e st version =
     (case readFileSync st quiche_manifest of
        Inl err \<Rightarrow> Inl err
      | Inr content \<Rightarrow>
          writeFileSync e st quiche_manifest
            (string_replace version_line False (''$1'' @ version @ ''$2'') content))"

definition updateWorkspaceVersion :: "env \<Rightarrow> wstate \<Rightarrow> string \<Rightarrow> io_error + wstate" where
  "updateWorkspaceVersion e st version =
     (case readFileSync st workspace_manifest of
        Inl err \<Rightarrow> Inl err
      | Inr content \<Rightarrow>
          writeFileSync e st workspace_manifest
            (string_replace workspace_line False (''$1'' @ version @ ''$2'') content))"

section \<open>Workflow orchestrator: commands and prompts\<close>

text \<open>
  \<open>exec\<close>: runs the command through \<open>execSync\<close> and trims what it returns.
  \<open>None\<close> stands for the exception leaving \<open>exec\<close>. A \<open>null\<close> return value has
  no \<open>trim\<close>, which throws inside the \<open>try\<close> like a failing command; a silent
  call turns every exception into the empty text.
\<close>

definition exec :: "env \<Rightarrow> string \<Rightarrow> bool \<Rightarrow> wstate \<Rightarrow> string option \<times> wstate" where
  "exec e command silent st =
     (let st' = emit (Exec command) (st\<lparr>calls := calls st + 1\<rparr>) in
      case execSync e (calls st) command of
        Returns (Some out) \<Rightarrow> (Some (trim out), st')
      | _ \<Rightarrow> if silent then (Some [], st') else (None, st'))"

text \<open>\<open>checkGitClean\<close>: \<open>exec('git status --porcelain') === ''\<close>; the call is
  silent, so no exception leaves it.\<close>

definition checkGitClean :: "env \<Rightarrow> wstate \<Rightarrow> bool \<times> wstate" where
  "checkGitClean e st =
     (let (status, st') = exec e ''git status --porcelain'' True st in (status = Some [], st'))"

text \<open>The operator's answers; \<open>None\<close> is a cancelled prompt. The text prompt
  for a custom version keeps asking until an entry passes its validation, so
  its answer is the first valid entry, and a cancel when there is none.\<close>

datatype version_action = Skip | Bump bump_kind | Custom

record operator =
  proceedDirty :: "bool option"
  versionAction :: "version_action option"
  customEntries :: "string list"
  shouldRun :: "string \<Rightarrow> bool option"
  continueAnyway :: "string \<Rightarrow> bool option"
  shouldRelease :: "bool option"

text \<open>The validation \<open>/^\d+\.\d+\.\d+$/\<close> of a custom version.\<close>

definition all_digits :: "string \<Rightarrow> bool" where
  "all_digits s = (s \<noteq> [] \<and> list_all is_digit s)"

definition valid_custom :: "string \<Rightarrow> bool" where
  "valid_custom s = (case split_dot s of [a, b, c] \<Rightarrow> all_digits a \<and> all_digits b \<and> all_digits c
                     | _ \<Rightarrow> False)"

definition custom_answer :: "operator \<Rightarrow> string option" where
  "custom_answer op = find valid_custom (customEntries op)"

text \<open>
  \<open>runScript\<close>. \<open>Inl\<close> is \<open>process.exit\<close> with its status; \<open>Inr\<close> carries the
  returned flag.
\<close>

definition runScript :: "env \<Rightarrow> operator \<Rightarrow> string \<Rightarrow> string \<Rightarrow> wstate \<Rightarrow> (int \<times> wstate) + (bool \<times> wstate)" where
  "runScript e op scriptName npmScript st =
     (let st1 = emit (Prompt (''Run '' @ scriptName @ ''?'')) st in
      case shouldRun op scriptName of
        None \<Rightarrow> Inl (0, emit (Log ''Workflow cancelled.'') st1)
      | Some False \<Rightarrow> Inr (False, emit (Log (''Skipped '' @ scriptName)) st1)
      | Some True \<Rightarrow>
          (case exec e (''npm run '' @ npmScript) False
                  (emit (Log (''Running '' @ scriptName @ ''...'')) st1) of
             (Some out, st2) \<Rightarrow> Inr (True, emit (Log (scriptName @ '' completed'')) st2)
           | (None, st2) \<Rightarrow>
               (let st3 = emit (Prompt ''Continue with workflow despite error?'')
                            (emit (Log (scriptName @ '' failed'')) st2) in
                case continueAnyway op scriptName of
                  Some True \<Rightarrow> Inr (False, st3)
                | _ \<Rightarrow> Inl (1, emit (Log (''Workflow stopped at '' @ scriptName)) st3))))"

section \<open>Workflow orchestrator: the phases of main\<close>

text \<open>The check of the working tree before the first phase.\<close>

definition check_phase :: "env \<Rightarrow> operator \<Rightarrow> wstate \<Rightarrow> (int \<times> wstate) + wstate" where
  "check_phase e op st =
     (let (clean, st1) = checkGitClean e st in
      if \<not> clean then
        (let st2 = emit (Prompt ''Continue anyway?'')
                     (emit (Log ''Git working directory has uncommitted changes'') st1) in
         case proceedDirty op of
           Some True \<Rightarrow> Inr st2
         | _ \<Rightarrow> Inl (0, emit (Log ''Workflow cancelled. Commit or stash your changes first.'') st2))
      else Inr (emit (Log ''Git working directory is clean'') st1))"

text \<open>
  Step 1. The new version: the operator's custom entry, or the bumped current
  version. A cancelled entry ends the process with status 0.
\<close>

definition choose_version :: "operator \<Rightarrow> Version \<Rightarrow> version_action \<Rightarrow> wstate \<Rightarrow> (int \<times> wstate) + wstate" where
  "choose_version op currentParsed action st =
     (case action of
        Custom \<Rightarrow>
          (case custom_answer op of
             None \<Rightarrow> Inl (0, emit (Log ''Workflow cancelled.'') (emit (Prompt ''Enter version:'') st))
           | Some customVersion \<Rightarrow>
               Inr ((emit (Prompt ''Enter version:'') st)\<lparr>newVersion := customVersion\<rparr>))
      | Bump kind \<Rightarrow> Inr (st\<lparr>newVersion := formatVersion (bumpVersion currentParsed kind)\<rparr>)
      | Skip \<Rightarrow> Inr st)"

text \<open>The two updates run inside one \<open>try\<close>, and \<open>versionChanged\<close> is set after
  them; the handler ends the process with status 1.\<close>

definition apply_version :: "env \<Rightarrow> wstate \<Rightarrow> (int \<times> wstate) + wstate" where
  "apply_version e st =
     (case updateQuicheVersion e st (newVersion st) of
        Inl err \<Rightarrow> Inl (1, emit (Log ''Failed to update version'') st)
      | Inr st1 \<Rightarrow>
          (case updateWorkspaceVersion e st1 (newVersion st1) of
             Inl err \<Rightarrow> Inl (1, emit (Log ''Failed to update version'') st1)
           | Inr st2 \<Rightarrow>
               Inr (emit (Log (''Updated version to '' @ newVersion st2))
                      (st2\<lparr>versionChanged := True\<rparr>))))"

text \<open>An exception of \<open>getCurrentVersion\<close> or \<open>parseVersion\<close> reaches the handler
  of \<open>main\<close>, which ends the process with status 1.\<close>

definition version_phase :: "env \<Rightarrow> operator \<Rightarrow> wstate \<Rightarrow> (int \<times> wstate) + wstate" where
  "version_phase e op st =
     (case getCurrentVersion st of
        Inl err \<Rightarrow> Inl (1, emit (Log ''Fatal error:'') st)
      | Inr currentVersion \<Rightarrow>
     (case parseVersion currentVersion of
        Inl err \<Rightarrow> Inl (1, emit (Log ''Fatal error:'') st)
      | Inr currentParsed \<Rightarrow>
     (let st1 = emit (Prompt ''Version update:'') st in
      case versionAction op of
        None \<Rightarrow> Inl (0, emit (Log ''Workflow cancelled.'') st1)
      | Some action \<Rightarrow>
     (let st2 = st1\<lparr>newVersion := currentVersion, versionChanged := False\<rparr> in
      if action \<noteq> Skip then
        (case choose_version op currentParsed action st2 of
           Inl stop \<Rightarrow> Inl stop
         | Inr st3 \<Rightarrow> apply_version e st3)
      else Inr st2))))"

text \<open>Steps 2 to 5 and the summary. \<open>buildRan\<close> is what \<open>runScript\<close> returned
  for the build script.\<close>

definition build_phase :: "env \<Rightarrow> operator \<Rightarrow> wstate \<Rightarrow> (int \<times> wstate) + wstate" where
  "build_phase e op st =
     (case runScript e op ''build script'' ''build'' (emit (Log ''Build Phase'') st) of
        Inl stop \<Rightarrow> Inl stop
      | Inr (returned, st1) \<Rightarrow> Inr (st1\<lparr>buildRan := returned\<rparr>))"

definition package_phase :: "env \<Rightarrow> operator \<Rightarrow> wstate \<Rightarrow> (int \<times> wstate) + wstate" where
  "package_phase e op st =
     (if buildRan st then
        (case runScript e op ''package script'' ''package'' (emit (Log ''Package Phase'') st) of
           Inl stop \<Rightarrow> Inl stop
         | Inr (returned, st1) \<Rightarrow> Inr st1)
      else Inr st)"

definition commit_phase :: "env \<Rightarrow> operator \<Rightarrow> wstate \<Rightarrow> (int \<times> wstate) + wstate" where
  "commit_phase e op st =
     (if versionChanged st \<or> buildRan st then
        (let (clean, st1) = checkGitClean e (emit (Log ''Commit Phase'') st);
             hasChanges = \<not> clean in
         if \<not> hasChanges then Inr (emit (Log ''No changes to commit'') st1)
         else case runScript e op ''commit script'' ''commit'' st1 of
                Inl stop \<Rightarrow> Inl stop
              | Inr (returned, st2) \<Rightarrow> Inr st2)
      else Inr st)"

definition release_phase :: "env \<Rightarrow> operator \<Rightarrow> wstate \<Rightarrow> (int \<times> wstate) + wstate" where
  "release_phase e op st =
     (let st1 = emit (Prompt (''Create GitHub release for v'' @ newVersion st @ ''?''))
                  (emit (Log ''Release Phase'') st) in
      case shouldRelease op of
        None \<Rightarrow> Inl (0, emit (Log ''Workflow cancelled.'') st1)
      | Some True \<Rightarrow>
          (case runScript e op ''release script'' ''release'' st1 of
             Inl stop \<Rightarrow> Inl stop
           | Inr (returned, st2) \<Rightarrow> Inr st2)
      | Some False \<Rightarrow> Inr (emit (Log ''Skipped release creation'') st1))"

definition summary_lines :: "bool \<Rightarrow> wstate \<Rightarrow> string list" where
  "summary_lines clean st =
     (if versionChanged st then [''Version updated to '' @ newVersion st] else []) @
     (if buildRan st then [''Build completed''] else []) @
     (if \<not> clean then [''Uncommitted changes remain''] else [''All changes committed''])"

definition finish :: "env \<Rightarrow> wstate \<Rightarrow> int \<times> wstate" where
  "finish e st =
     (let (clean, st1) = checkGitClean e st in
      (0, emit (Log (''Workflow complete! '' @ join_with '', '' (summary_lines clean st1))) st1))"

text \<open>\<open>main\<close>: the exit status and the final state. The run up to the start
  of the build phase, and the run from there, are its two halves.\<close>

definition before_build :: "env \<Rightarrow> operator \<Rightarrow> wstate \<Rightarrow> (int \<times> wstate) + wstate" where
  "before_build e op st =
     (case check_phase e op st of Inl stop \<Rightarrow> Inl stop | Inr st1 \<Rightarrow> version_phase e op st1)"

definition from_build :: "env \<Rightarrow> operator \<Rightarrow> wstate \<Rightarrow> int \<times> wstate" where
  "from_build e op st =
     (case build_phase e op st of Inl stop \<Rightarrow> stop | Inr st1 \<Rightarrow>
      case package_phase e op st1 of Inl stop \<Rightarrow> stop | Inr st2 \<Rightarrow>
      case commit_phase e op st2 of Inl stop \<Rightarrow> stop | Inr st3 \<Rightarrow>
      case release_phase e op st3 of Inl stop \<Rightarrow> stop | Inr st4 \<Rightarrow>
      finish e st4)"

definition main :: "env \<Rightarrow> operator \<Rightarrow> wstate \<Rightarrow> int \<times> wstate" where
  "main e op st =
     (case before_build e op st of Inl stop \<Rightarrow> stop | Inr st1 \<Rightarrow> from_build e op st1)"

text \<open>The state in which \<open>main\<close> starts.\<close>

definition start :: "(path \<Rightarrow> string option) \<Rightarrow> wstate" where
  "start fs = \<lparr>files = fs, trace = [], calls = 0, newVersion = [], versionChanged = False,
               buildRan = False\<rparr>"

section \<open>Events of interest\<close>

fun is_wrote :: "event \<Rightarrow> bool" where
  "is_wrote (Wrote p c) = True"
| "is_wrote ev = False"

fun writes_to :: "path \<Rightarrow> event \<Rightarrow> bool" where
  "writes_to p (Wrote q c) = (q = p)"
| "writes_to p ev = False"

fun is_exec :: "event \<Rightarrow> bool" where
  "is_exec (Exec c) = True"
| "is_exec ev = False"

definition build_invocation :: event where
  "build_invocation = Exec ''npm run build''"

definition dirty_warning :: event where
  "dirty_warning = Log ''Git working directory has uncommitted changes''"

definition dirty_prompt :: event where
  "dirty_prompt = Prompt ''Continue anyway?''"

text \<open>The state a phase ends in, whether it exits or goes on.\<close>

fun end_state :: "(int \<times> wstate) + wstate \<Rightarrow> wstate" where
  "end_state (Inl (code, st)) = st"
| "end_state (Inr st) = st"

fun script_end_state :: "(int \<times> wstate) + (bool \<times> wstate) \<Rightarrow> wstate" where
  "script_end_state (Inl (code, st)) = st"
| "script_end_state (Inr (returned, st)) = st"

text \<open>Events that the phases after the version update may produce: no write,
  and neither the warning nor the question of the first check.\<close>

definition late_event :: "event \<Rightarrow> bool" where
  "late_event ev = (\<not> is_wrote ev \<and> ev \<noteq> dirty_warning \<and> ev \<noteq> dirty_prompt)"

text \<open>\<open>st'\<close> continues \<open>st\<close> by such events and leaves the files and the version
  variables alone.\<close>

definition continues :: "wstate \<Rightarrow> wstate \<Rightarrow> bool" where
  "continues st st' =
     (\<exists>es. trace st' = trace st @ es \<and> list_all late_event es \<and> files st' = files st \<and>
           newVersion st' = newVersion st \<and> versionChanged st' = versionChanged st)"

text \<open>The characters of a formatted version.\<close>

definition version_char :: "char \<Rightarrow> bool" where
  "version_char c = (is_digit c \<or> c = CHR ''.'' \<or> c = CHR ''-'')"

section \<open>Release script: reading and writing the version\<close>





section \<open>Sample inputs\<close>

definition quiet_release :: BuildOptions where
  "quiet_release = \<lparr>mode = Release, features = [''ffi''], parallel = True, verbose = False\<rparr>"

definition child_exit :: "int \<Rightarrow> string \<Rightarrow> int \<Rightarrow> child_run" where
  "child_exit code err ms =
     \<lparr>stdout_chunks = [], stderr_chunks = [err], settled_by = Close (Some code),
      started_at = 0, settled_at = ms\<rparr>"



text \<open>Manifests, an operator who answers yes to everything after choosing a
  version action, and environments in which every path can be written, the
  status query prints nothing, and the scripts run with inherited output.\<close>

definition sample_manifest :: string where
  \<open>sample_manifest =
     ''[package]\<newline>name = "quiche"\<newline>version = "2.3.1"\<newline>edition = "2021"\<newline>''\<close>

definition sample_workspace :: string where
  \<open>sample_workspace =
     ''[workspace.dependencies]\<newline>quiche = { version = "2.3.1", path = "./quiche" }\<newline>''\<close>

definition bare_manifest :: string where
  \<open>bare_manifest = ''[package]\<newline>name = "quiche"\<newline>''\<close>

definition sample_files :: "path \<Rightarrow> string option" where
  "sample_files = [quiche_manifest \<mapsto> sample_manifest, workspace_manifest \<mapsto> sample_workspace]"

definition bare_files :: "path \<Rightarrow> string option" where
  "bare_files = [quiche_manifest \<mapsto> bare_manifest, workspace_manifest \<mapsto> sample_workspace]"

definition willing :: "version_action \<Rightarrow> operator" where
  "willing action =
     \<lparr>proceedDirty = Some True, versionAction = Some action, customEntries = [],
      shouldRun = (\<lambda>name. Some True), continueAnyway = (\<lambda>name. Some True),
      shouldRelease = Some True\<rparr>"

definition calm :: env where
  "calm = \<lparr>writable = (\<lambda>p. True),
           execSync = (\<lambda>n command. if command = ''git status --porcelain''
                                     then Returns (Some []) else Returns None)\<rparr>"

definition no_git :: env where
  "no_git = calm\<lparr>execSync := (\<lambda>n command. if command = ''git status --porcelain''
                                            then Throws else Returns None)\<rparr>"

definition locked_workspace :: env where
  "locked_workspace = calm\<lparr>writable := (\<lambda>p. p \<noteq> workspace_manifest)\<rparr>"

section \<open>Version bump laws\<close>





section \<open>The build executor's result\<close>

lemma PLATFORMS_targets: "\<forall>p \<in> set PLATFORMS. target p \<noteq> Some []"
  by (simp add: PLATFORMS_def cross_platform_def docker_platform_def)



section \<open>Order of the results\<close>

lemma length_fold_fill: "length (fold (fill_slot vs) order slots) = length slots"
  by (induction order arbitrary: slots) (simp_all add: fill_slot_def)

lemma nth_fold_fill:
  assumes "length slots = length vs" and "i < length vs"
  shows "fold (fill_slot vs) order slots ! i = (if i \<in> set order then Some (vs ! i) else slots ! i)"
  using assms
proof (induction order arbitrary: slots)
  case Nil
  then show ?case by simp
next
  case (Cons j order)
  have len: "length (fill_slot vs j slots) = length vs"
    using Cons.prems(1) by (simp add: fill_slot_def)
  have step: "fill_slot vs j slots ! i = (if i = j then Some (vs ! i) else slots ! i)"
    using Cons.prems by (simp add: fill_slot_def nth_list_update)
  show ?case
    using Cons.IH [OF len Cons.prems(2)] step by auto
qed


lemma promise_all_pending:
  assumes "i < length vs" and "i \<notin> set order"
  shows "promise_all vs order = None"
proof -
  let ?slots = "fold (fill_slot vs) order (replicate (length vs) None)"
  have "?slots ! i = None"
    using nth_fold_fill [of "replicate (length vs) None" vs i order] assms by simp
  moreover have "i < length ?slots"
    using assms by (simp add: length_fold_fill)
  ultimately have "None \<in> set ?slots"
    by (metis nth_mem)
  then show ?thesis
    by (auto simp: promise_all_def list_ex_iff Option.is_none_def)
qed




section \<open>The verbose flag\<close>

text \<open>
  C8, as the claim states it, fails: a child that exits with code 1 after
  writing to its error pipe gives the quiet build that text as \<open>error\<close> and the
  verbose build the generic message, since the verbose build collects nothing.
\<close>

theorem verbose_error_counterexample:
  "error (buildPlatform (\<lambda>c. child_exit 1 ''linker not found'' 50) (hd PLATFORMS)
            (quiet_release\<lparr>verbose := False\<rparr>)) = Some ''linker not found''
   \<and> error (buildPlatform (\<lambda>c. child_exit 1 ''linker not found'' 50) (hd PLATFORMS)
            (quiet_release\<lparr>verbose := True\<rparr>)) = Some ''Build failed with exit code 1''"
  by (simp add: buildPlatform_def child_exit_def quiet_release_def or_else_def Let_def
      show_int_def digits_of.simps digit_char_def)

lemma output_path_verbose: "output_path p (options\<lparr>verbose := b\<rparr>) = output_path p options"
  by (simp add: output_path_def split: option.splits)

text \<open>
  C8, amended. For every target and every fixed outcome of the child, the
  verbose and the quiet result have the same \<open>platform\<close>, \<open>success\<close>, \<open>duration\<close>
  and \<open>outputPath\<close>; the \<open>error\<close> is the same (absent) on exit code 0, the same
  (the runtime's message) on a spawn error, and on another exit code it is
  \<open>Build failed with exit code N\<close> in verbose mode and, in quiet mode, the
  collected error output if there is any, else the collected standard output
  if there is any, else that same message. So the two results are equal
  whenever the child wrote nothing.
\<close>

theorem verbose_changes_error_only:
  fixes run :: child_run and p :: Platform and options :: BuildOptions
  defines "rv \<equiv> buildPlatform (\<lambda>c. run) p (options\<lparr>verbose := True\<rparr>)"
    and "rq \<equiv> buildPlatform (\<lambda>c. run) p (options\<lparr>verbose := False\<rparr>)"
  shows "platform rv = platform rq \<and> success rv = success rq \<and> duration rv = duration rq
    \<and> outputPath rv = outputPath rq
    \<and> (settled_by run = Close (Some 0) \<longrightarrow> error rv = None \<and> error rq = None)
    \<and> (\<forall>m. settled_by run = Error m \<longrightarrow> error rv = Some m \<and> error rq = Some m)
    \<and> (\<forall>code. settled_by run = Close code \<and> code \<noteq> Some 0 \<longrightarrow>
          error rv = Some (''Build failed with exit code '' @ show_code code) \<and>
          error rq = Some (or_else (concat (stderr_chunks run))
                       (or_else (concat (stdout_chunks run))
                          (''Build failed with exit code '' @ show_code code))))
    \<and> (concat (stderr_chunks run) = [] \<and> concat (stdout_chunks run) = [] \<longrightarrow> rv = rq)"
  unfolding rv_def rq_def
  by (cases "settled_by run")
     (simp_all add: buildPlatform_def Let_def output_path_verbose or_else_def)

theorem verbose_changes_error_only_witness:
  "settled_by (child_exit 1 ''linker not found'' 50) = Close (Some 1) \<and> Some 1 \<noteq> Some (0::int)
   \<and> error (buildPlatform (\<lambda>c. child_exit 1 ''linker not found'' 50) (last PLATFORMS)
        (quiet_release\<lparr>verbose := True\<rparr>)) = Some (''Build failed with exit code '' @ show_code (Some 1))
   \<and> error (buildPlatform (\<lambda>c. child_exit 1 ''linker not found'' 50) (last PLATFORMS)
        (quiet_release\<lparr>verbose := False\<rparr>)) = Some ''linker not found''
   \<and> success (buildPlatform (\<lambda>c. child_exit 1 ''linker not found'' 50) (last PLATFORMS)
        (quiet_release\<lparr>verbose := True\<rparr>))
      = success (buildPlatform (\<lambda>c. child_exit 1 ''linker not found'' 50) (last PLATFORMS)
        (quiet_release\<lparr>verbose := False\<rparr>))"
proof -
  have c: "settled_by (child_exit 1 ''linker not found'' 50) = Close (Some 1)"
    by (simp add: child_exit_def)
  have o: "or_else (concat (stderr_chunks (child_exit 1 ''linker not found'' 50)))
             (or_else (concat (stdout_chunks (child_exit 1 ''linker not found'' 50)))
                (''Build failed with exit code '' @ show_code (Some 1))) = ''linker not found''"
    by (simp add: child_exit_def or_else_def)
  from verbose_changes_error_only [of "child_exit 1 ''linker not found'' 50" "last PLATFORMS" quiet_release]
    c o show ?thesis by simp
qed

section \<open>Text lemmas\<close>



lemma digit_val_dollar: "digit_val (CHR ''$'') = None"
  by (simp add: digit_val_def)

lemma subst_plain:
  "CHR ''$'' \<notin> set s \<Longrightarrow>
   get_substitution caps m b a (s @ t) = s @ get_substitution caps m b a t"
proof (induction s)
  case Nil
  then show ?case by simp
next
  case (Cons c s)
  then show ?case by (cases "s @ t") auto
qed

lemma subst_last_capture: "get_substitution [g1, g2] m b a ''$2'' = g2"
  by (simp add: digit_val_def capture_ref_def)

lemma subst_template:
  assumes "CHR ''$'' \<notin> set v"
  shows "get_substitution [g1, g2] m b a (''$1'' @ v @ ''$2'') = g1 @ v @ g2"
proof (cases v)
  case Nil
  then show ?thesis by (simp add: digit_val_def capture_ref_def)
next
  case (Cons e v')
  have rest: "get_substitution [g1, g2] m b a (e # v' @ ''$2'') = e # v' @ g2"
    using subst_plain [of "e # v'" "[g1, g2]" m b a "''$2''"] assms Cons
    by (simp add: subst_last_capture del: get_substitution.simps)
  have one: "digit_val (CHR ''1'') = Some 1"
    by (simp add: digit_val_def)
  have "get_substitution [g1, g2] m b a (CHR ''$'' # CHR ''1'' # e # v' @ ''$2'') =
      g1 @ get_substitution [g1, g2] m b a (e # v' @ ''$2'')"
    using one by (cases "digit_val e") (simp_all add: capture_ref_def del: get_substitution.simps(3)
        add: get_substitution.simps(3) [of _ _ _ _ "CHR ''$''" "CHR ''1''"])
  with rest Cons show ?thesis by (simp del: get_substitution.simps)
qed

lemma match_items_split: "match_items items s = Some (mt, r) \<Longrightarrow> s = mt @ r"
proof (induction items s arbitrary: mt r rule: match_items.induct)
  case (1 s)
  then show ?case by simp
next
  case (2 l items s)
  from "2.prems" obtain m' where tk: "take (length l) s = l"
    and rec: "match_items items (drop (length l) s) = Some (m', r)" and mt: "mt = l @ m'"
    by (auto split: if_splits option.splits)
  from "2.IH" [OF tk rec] have "drop (length l) s = m' @ r" .
  then have "s = take (length l) s @ m' @ r"
    by (metis append_take_drop_id)
  with tk mt show ?case by simp
next
  case (3 items s)
  from "3.prems" obtain m' where
    rec: "match_items items (dropWhile is_space s) = Some (m', r)"
    and mt: "mt = takeWhile is_space s @ m'"
    by (auto split: option.splits)
  from "3.IH" [OF rec] have "dropWhile is_space s = m' @ r" .
  then have "s = takeWhile is_space s @ m' @ r"
    by (metis takeWhile_dropWhile_id)
  with mt show ?case by simp
qed

lemma match_field_split:
  assumes "match_field prefix to_eol s = Some (g1, v, g2, a)"
  shows "s = g1 @ v @ g2 @ a" and "v \<noteq> []" and "CHR 0x22 \<notin> set v"
proof -
  from assms obtain r q r' where mi: "match_items prefix s = Some (g1, r)"
    and v: "v = takeWhile not_quote r" and ne: "v \<noteq> []"
    and dw: "dropWhile not_quote r = q # r'"
    and g2a: "g2 @ a = q # r'"
    by (auto simp: match_field_def Let_def split: option.splits list.splits if_splits)
  have "r = v @ q # r'"
    using v dw by (metis takeWhile_dropWhile_id)
  with match_items_split [OF mi] g2a show "s = g1 @ v @ g2 @ a" by simp
  show "v \<noteq> []" by (rule ne)
  show "CHR 0x22 \<notin> set v"
    unfolding v using set_takeWhileD [of "CHR 0x22" not_quote r] by (auto simp: not_quote_def)
qed

lemma search_lines_split:
  "search_lines m sk at s = Some (b, r) \<Longrightarrow> \<exists>x y. s = x @ y \<and> b = rev sk @ x \<and> m y = Some r"
proof (induction s arbitrary: sk at)
  case Nil
  then show ?case by (auto split: if_splits option.splits)
next
  case (Cons c cs)
  show ?case
  proof (cases "if at then m (c # cs) else None")
    case (Some r')
    with Cons.prems have "b = rev sk" "r' = r" by auto
    moreover from Some have "m (c # cs) = Some r'" by (auto split: if_splits)
    ultimately show ?thesis by auto
  next
    case None
    with Cons.prems have "search_lines m (c # sk) (is_line_terminator c) cs = Some (b, r)"
      by simp
    from Cons.IH [OF this] obtain x y where "cs = x @ y" "b = rev (c # sk) @ x" "m y = Some r"
      by blast
    then have "c # cs = (c # x) @ y \<and> b = rev sk @ (c # x) \<and> m y = Some r" by simp
    then show ?thesis by blast
  qed
qed

lemma regex_exec_split:
  assumes "regex_exec prefix to_eol content = Some m"
  shows "content = before m @ group1 m @ field_value m @ group2 m @ after m"
    and "field_value m \<noteq> []" and "CHR 0x22 \<notin> set (field_value m)"
proof -
  from assms obtain b g1 v g2 a where
    s: "search_lines (match_field prefix to_eol) [] True content = Some (b, (g1, v, g2, a))"
    and m: "m = \<lparr>before = b, group1 = g1, field_value = v, group2 = g2, after = a\<rparr>"
    by (auto simp: regex_exec_def split: option.splits)
  from search_lines_split [OF s] obtain y where c: "content = b @ y"
    and y: "match_field prefix to_eol y = Some (g1, v, g2, a)"
    by auto
  from match_field_split [OF y] c m
  show "content = before m @ group1 m @ field_value m @ group2 m @ after m"
    and "field_value m \<noteq> []" and "CHR 0x22 \<notin> set (field_value m)"
    by simp_all
qed

lemma string_replace_version:
  assumes "regex_exec prefix to_eol content = Some m" and "CHR ''$'' \<notin> set v"
  shows "string_replace prefix to_eol (''$1'' @ v @ ''$2'') content =
         before m @ group1 m @ v @ group2 m @ after m"
  using assms subst_template [OF assms(2)]
  by (simp add: string_replace_def del: get_substitution.simps)


lemma digit_char_is_digit: "d < 10 \<Longrightarrow> is_digit (digit_char d)"
proof -
  assume d: "d < 10"
  have all: "list_all is_digit ''0123456789''"
    by (simp add: is_digit_def digit_val_def)
  have "d < length ''0123456789''"
    using d by simp
  with all show ?thesis
    unfolding digit_char_def list_all_length by blast
qed

lemma digits_of_digits: "list_all is_digit (digits_of n)"
proof (induction n rule: digits_of.induct)
  case (1 n)
  show ?case
  proof (cases "n < 10")
    case True
    then show ?thesis
      using digit_char_is_digit [of n] by (subst digits_of.simps) simp
  next
    case False
    have "n mod 10 < 10" by simp
    from digit_char_is_digit [OF this] "1.IH" [OF False] False show ?thesis
      by (subst digits_of.simps) simp
  qed
qed

lemma digits_of_nonempty: "digits_of n \<noteq> []"
  by (subst digits_of.simps) simp

lemma is_digit_chars: "is_digit c \<Longrightarrow> c \<noteq> CHR ''$'' \<and> c \<noteq> CHR 0x22"
  by (auto simp: is_digit_def digit_val_def)


lemma show_int_chars: "list_all version_char (show_int i)"
  using digits_of_digits [of "nat i"] digits_of_digits [of "nat (- i)"]
  by (auto simp: show_int_def version_char_def list_all_iff)

lemma formatVersion_chars: "list_all version_char (formatVersion v)"
  using show_int_chars [of "major v"] show_int_chars [of "minor v"] show_int_chars [of "patch v"]
  by (simp add: formatVersion_def version_char_def)

lemma version_char_plain: "version_char c \<Longrightarrow> c \<noteq> CHR ''$'' \<and> c \<noteq> CHR 0x22"
  by (auto simp: version_char_def is_digit_def digit_val_def)


lemma formatVersion_nonempty: "formatVersion v \<noteq> []"
  by (simp add: formatVersion_def)

section \<open>Custom versions\<close>

lemma manifests_differ: "quiche_manifest \<noteq> workspace_manifest"
  by (simp add: quiche_manifest_def workspace_manifest_def)

lemma split_acc_chars:
  "set (concat (split_acc cur s)) = set cur \<union> (set s - {CHR ''.''})"
  by (induction s arbitrary: cur) auto

lemma valid_custom_chars:
  assumes "valid_custom s"
  shows "list_all version_char s" and "s \<noteq> []"
proof -
  from assms obtain a b c where sp: "split_dot s = [a, b, c]"
    and d: "all_digits a" "all_digits b" "all_digits c"
    by (auto simp: valid_custom_def split: list.splits)
  have "set (concat (split_dot s)) = set s - {CHR ''.''}"
    using split_acc_chars [of "[]" s] by (simp add: split_dot_def)
  then have eq: "set s - {CHR ''.''} = set a \<union> set b \<union> set c"
    unfolding sp by (simp add: Un_assoc eq_commute)
  have digits: "is_digit x" if "x \<in> set a \<union> set b \<union> set c" for x
    using that d unfolding all_digits_def list_all_iff by blast
  show "list_all version_char s"
    unfolding list_all_iff
  proof
    fix x assume x: "x \<in> set s"
    show "version_char x"
    proof (cases "x = CHR ''.''")
      case True
      then show ?thesis by (simp add: version_char_def)
    next
      case False
      with x have "x \<in> set s - {CHR ''.''}" by simp
      then have "x \<in> set a \<union> set b \<union> set c" unfolding eq .
      then show ?thesis using digits by (simp add: version_char_def)
    qed
  qed
  from d(1) obtain y where "y \<in> set a"
    unfolding all_digits_def by (cases a) auto
  then have "y \<in> set s - {CHR ''.''}" unfolding eq by simp
  then show "s \<noteq> []" by auto
qed

lemma custom_answer_valid: "custom_answer op = Some v \<Longrightarrow> valid_custom v"
  by (auto simp: custom_answer_def find_Some_iff)

section \<open>Continuing a run\<close>

lemma emit_simps:
  "trace (emit ev st) = trace st @ [ev]" "files (emit ev st) = files st"
  "newVersion (emit ev st) = newVersion st" "versionChanged (emit ev st) = versionChanged st"
  "buildRan (emit ev st) = buildRan st" "calls (emit ev st) = calls st"
  by (simp_all add: emit_def)

lemma continues_refl: "continues st st"
  by (simp add: continues_def)

lemma continues_trans: "continues a b \<Longrightarrow> continues b c \<Longrightarrow> continues a c"
  by (auto simp: continues_def)

lemma continues_emit: "late_event ev \<Longrightarrow> continues st (emit ev st)"
  by (simp add: continues_def emit_def)

lemma continues_buildRan: "continues st (st\<lparr>buildRan := b\<rparr>)"
  by (simp add: continues_def)

lemmas late_defs = late_event_def dirty_warning_def dirty_prompt_def

lemma continues_exec: "continues st (snd (exec e c silent st))"
  by (auto simp: exec_def Let_def continues_def emit_def late_defs
      split: exec_result.splits option.splits)

lemma continues_checkGitClean: "continues st (snd (checkGitClean e st))"
  using continues_exec [of st e "''git status --porcelain''" True]
  by (auto simp: checkGitClean_def Let_def split: prod.splits)

lemma continues_runScript: "continues st (script_end_state (runScript e op n s st))"
  by (auto simp: runScript_def exec_def Let_def continues_def emit_def late_defs
      split: exec_result.splits option.splits bool.splits prod.splits)

lemma continues_build_phase: "continues st (end_state (build_phase e op st))"
proof -
  have "continues st (emit (Log ''Build Phase'') st)"
    by (simp add: continues_emit late_defs)
  from continues_trans [OF this continues_runScript]
  have "continues st (script_end_state (runScript e op ''build script'' ''build''
          (emit (Log ''Build Phase'') st)))" .
  then show ?thesis
    by (auto simp: build_phase_def split: sum.splits intro: continues_trans continues_buildRan)
qed

lemma continues_package_phase: "continues st (end_state (package_phase e op st))"
proof -
  have "continues st (emit (Log ''Package Phase'') st)"
    by (simp add: continues_emit late_defs)
  from continues_trans [OF this continues_runScript]
  have "continues st (script_end_state (runScript e op ''package script'' ''package''
          (emit (Log ''Package Phase'') st)))" .
  then show ?thesis
    by (auto simp: package_phase_def continues_refl split: sum.splits)
qed

lemma continues_commit_phase: "continues st (end_state (commit_phase e op st))"
proof -
  obtain clean st1 where c: "checkGitClean e (emit (Log ''Commit Phase'') st) = (clean, st1)"
    by (cases "checkGitClean e (emit (Log ''Commit Phase'') st)") auto
  have "continues st (emit (Log ''Commit Phase'') st)"
    by (simp add: continues_emit late_defs)
  from continues_trans [OF this continues_checkGitClean [of _ e]] c
  have c1: "continues st st1" by simp
  have c2: "continues st (emit (Log ''No changes to commit'') st1)"
    by (rule continues_trans [OF c1]) (simp add: continues_emit late_defs)
  have c3: "continues st (script_end_state (runScript e op ''commit script'' ''commit'' st1))"
    by (rule continues_trans [OF c1 continues_runScript])
  show ?thesis
    using c c2 c3 by (auto simp: commit_phase_def continues_refl split: sum.splits)
qed

lemma continues_release_phase: "continues st (end_state (release_phase e op st))"
proof -
  let ?st1 = "emit (Prompt (''Create GitHub release for v'' @ newVersion st @ ''?''))
                  (emit (Log ''Release Phase'') st)"
  have c1: "continues st ?st1"
    by (simp add: continues_def emit_def late_defs)
  have c2: "continues st (emit (Log ''Workflow cancelled.'') ?st1)"
    by (simp add: continues_def emit_def late_defs)
  have c3: "continues st (emit (Log ''Skipped release creation'') ?st1)"
    by (simp add: continues_def emit_def late_defs)
  have c4: "continues st (script_end_state (runScript e op ''release script'' ''release'' ?st1))"
    by (rule continues_trans [OF c1 continues_runScript])
  show ?thesis
    using c2 c3 c4
    by (auto simp: release_phase_def Let_def split: sum.splits option.splits bool.splits)
qed

lemma continues_finish: "continues st (snd (finish e st))"
proof -
  obtain clean st1 where c: "checkGitClean e st = (clean, st1)"
    by (cases "checkGitClean e st") auto
  with continues_checkGitClean [of st e] have c1: "continues st st1" by simp
  have "continues st1 (emit (Log (''Workflow complete! '' @ join_with '', '' (summary_lines clean st1))) st1)"
    by (simp add: continues_def emit_def late_defs)
  with c1 c show ?thesis
    by (auto simp: finish_def intro: continues_trans)
qed

lemma continues_from_build: "continues st (snd (from_build e op st))"
proof -
  note b = continues_build_phase [of st e op]
  show ?thesis
  proof (cases "build_phase e op st")
    case (Inl stop)
    with b show ?thesis by (cases stop) (simp add: from_build_def)
  next
    case (Inr st1)
    with b have c1: "continues st st1" by simp
    note p = continues_package_phase [of st1 e op]
    show ?thesis
    proof (cases "package_phase e op st1")
      case (Inl stop)
      with p c1 Inr show ?thesis
        by (cases stop) (auto simp: from_build_def intro: continues_trans)
    next
      case (Inr st2)
      with p c1 have c2: "continues st st2" by (auto intro: continues_trans)
      note c = continues_commit_phase [of st2 e op]
      show ?thesis
      proof (cases "commit_phase e op st2")
        case (Inl stop)
        with c c2 \<open>build_phase e op st = Inr st1\<close> \<open>package_phase e op st1 = Inr st2\<close>
        show ?thesis
          by (cases stop) (auto simp: from_build_def intro: continues_trans)
      next
        case (Inr st3)
        with c c2 have c3: "continues st st3" by (auto intro: continues_trans)
        note r = continues_release_phase [of st3 e op]
        show ?thesis
        proof (cases "release_phase e op st3")
          case (Inl stop)
          with r c3 \<open>build_phase e op st = Inr st1\<close> \<open>package_phase e op st1 = Inr st2\<close>
            \<open>commit_phase e op st2 = Inr st3\<close>
          show ?thesis
            by (cases stop) (auto simp: from_build_def intro: continues_trans)
        next
          case (Inr st4)
          with r c3 have c4: "continues st st4" by (auto intro: continues_trans)
          from continues_trans [OF c4 continues_finish [of st4 e]]
            \<open>build_phase e op st = Inr st1\<close> \<open>package_phase e op st1 = Inr st2\<close>
            \<open>commit_phase e op st2 = Inr st3\<close> Inr
          show ?thesis by (simp add: from_build_def)
        qed
      qed
    qed
  qed
qed

section \<open>The version update\<close>

lemma updateQuicheVersion_result:
  "updateQuicheVersion e st v = Inr st' \<Longrightarrow>
   \<exists>content. files st quiche_manifest = Some content \<and> writable e quiche_manifest \<and>
     st' = emit (Wrote quiche_manifest (string_replace version_line False (''$1'' @ v @ ''$2'') content))
           (st\<lparr>files := (files st)(quiche_manifest \<mapsto>
              string_replace version_line False (''$1'' @ v @ ''$2'') content)\<rparr>)"
  by (auto simp: updateQuicheVersion_def readFileSync_def writeFileSync_def
      split: option.splits if_splits)

lemma updateQuicheVersion_failure:
  "updateQuicheVersion e st v = Inl err \<Longrightarrow>
   files st quiche_manifest = None \<or> \<not> writable e quiche_manifest"
  by (auto simp: updateQuicheVersion_def readFileSync_def writeFileSync_def
      split: option.splits if_splits)

lemma updateWorkspaceVersion_result:
  "updateWorkspaceVersion e st v = Inr st' \<Longrightarrow>
   \<exists>content. files st workspace_manifest = Some content \<and> writable e workspace_manifest \<and>
     st' = emit (Wrote workspace_manifest (string_replace workspace_line False (''$1'' @ v @ ''$2'') content))
           (st\<lparr>files := (files st)(workspace_manifest \<mapsto>
              string_replace workspace_line False (''$1'' @ v @ ''$2'') content)\<rparr>)"
  by (auto simp: updateWorkspaceVersion_def readFileSync_def writeFileSync_def
      split: option.splits if_splits)

lemma updateWorkspaceVersion_failure:
  "updateWorkspaceVersion e st v = Inl err \<Longrightarrow>
   files st workspace_manifest = None \<or> \<not> writable e workspace_manifest"
  by (auto simp: updateWorkspaceVersion_def readFileSync_def writeFileSync_def
      split: option.splits if_splits)

text \<open>The update either completes with both writes, or stops with status 1
  after none or after the first of them.\<close>

lemma apply_version_done:
  assumes "apply_version e st = Inr st'"
  shows "\<exists>content1 content2.
      files st quiche_manifest = Some content1 \<and> files st workspace_manifest = Some content2 \<and>
      writable e quiche_manifest \<and> writable e workspace_manifest \<and>
      trace st' = trace st @
        [Wrote quiche_manifest
           (string_replace version_line False (''$1'' @ newVersion st @ ''$2'') content1),
         Wrote workspace_manifest
           (string_replace workspace_line False (''$1'' @ newVersion st @ ''$2'') content2),
         Log (''Updated version to '' @ newVersion st)] \<and>
      files st' = (files st)
        (quiche_manifest \<mapsto>
           string_replace version_line False (''$1'' @ newVersion st @ ''$2'') content1,
         workspace_manifest \<mapsto>
           string_replace workspace_line False (''$1'' @ newVersion st @ ''$2'') content2) \<and>
      newVersion st' = newVersion st \<and> versionChanged st'"
proof -
  from assms obtain st1 st2 where q: "updateQuicheVersion e st (newVersion st) = Inr st1"
    and w: "updateWorkspaceVersion e st1 (newVersion st1) = Inr st2"
    and st': "st' = emit (Log (''Updated version to '' @ newVersion st2)) (st2\<lparr>versionChanged := True\<rparr>)"
    by (auto simp: apply_version_def split: sum.splits)
  from updateQuicheVersion_result [OF q] obtain content1 where
    c1: "files st quiche_manifest = Some content1" "writable e quiche_manifest"
    and st1: "st1 = emit (Wrote quiche_manifest (string_replace version_line False (''$1'' @ newVersion st @ ''$2'') content1))
           (st\<lparr>files := (files st)(quiche_manifest \<mapsto>
              string_replace version_line False (''$1'' @ newVersion st @ ''$2'') content1)\<rparr>)"
    by blast
  have nv1: "newVersion st1 = newVersion st"
    and f1: "files st1 = (files st)(quiche_manifest \<mapsto>
              string_replace version_line False (''$1'' @ newVersion st @ ''$2'') content1)"
    and t1: "trace st1 = trace st @ [Wrote quiche_manifest
              (string_replace version_line False (''$1'' @ newVersion st @ ''$2'') content1)]"
    unfolding st1 by (simp_all add: emit_def)
  from updateWorkspaceVersion_result [OF w] obtain content2 where
    c2: "files st1 workspace_manifest = Some content2" "writable e workspace_manifest"
    and st2: "st2 = emit (Wrote workspace_manifest (string_replace workspace_line False (''$1'' @ newVersion st1 @ ''$2'') content2))
           (st1\<lparr>files := (files st1)(workspace_manifest \<mapsto>
              string_replace workspace_line False (''$1'' @ newVersion st1 @ ''$2'') content2)\<rparr>)"
    by blast
  have c2': "files st workspace_manifest = Some content2"
    using c2(1) f1 manifests_differ by (simp add: fun_upd_def split: if_splits)
  have "trace st' = trace st1 @ [Wrote workspace_manifest
           (string_replace workspace_line False (''$1'' @ newVersion st @ ''$2'') content2),
         Log (''Updated version to '' @ newVersion st)]"
    and "files st' = (files st1)(workspace_manifest \<mapsto>
           string_replace workspace_line False (''$1'' @ newVersion st @ ''$2'') content2)"
    and "newVersion st' = newVersion st" and "versionChanged st'"
    unfolding st' st2 nv1 by (simp_all add: emit_def nv1)
  with c1 c2' c2(2) t1 f1 show ?thesis by simp
qed

lemma apply_version_stop:
  assumes "apply_version e st = Inl (code, st')"
  shows "code = 1 \<and> newVersion st' = newVersion st \<and> versionChanged st' = versionChanged st \<and>
     ((trace st' = trace st @ [Log ''Failed to update version''] \<and> files st' = files st \<and>
        (files st quiche_manifest = None \<or> \<not> writable e quiche_manifest)) \<or>
      (\<exists>content1. files st quiche_manifest = Some content1 \<and> writable e quiche_manifest \<and>
        (files st workspace_manifest = None \<or> \<not> writable e workspace_manifest) \<and>
        trace st' = trace st @
          [Wrote quiche_manifest
             (string_replace version_line False (''$1'' @ newVersion st @ ''$2'') content1),
           Log ''Failed to update version''] \<and>
        files st' = (files st)(quiche_manifest \<mapsto>
             string_replace version_line False (''$1'' @ newVersion st @ ''$2'') content1)))"
proof (cases "updateQuicheVersion e st (newVersion st)")
  case (Inl err)
  with assms updateQuicheVersion_failure [OF Inl] show ?thesis
    by (auto simp: apply_version_def emit_def)
next
  case (Inr st1)
  from updateQuicheVersion_result [OF Inr] obtain content1 where
    c1: "files st quiche_manifest = Some content1" "writable e quiche_manifest"
    and st1: "st1 = emit (Wrote quiche_manifest (string_replace version_line False (''$1'' @ newVersion st @ ''$2'') content1))
           (st\<lparr>files := (files st)(quiche_manifest \<mapsto>
              string_replace version_line False (''$1'' @ newVersion st @ ''$2'') content1)\<rparr>)"
    by blast
  from assms Inr obtain err where w: "updateWorkspaceVersion e st1 (newVersion st1) = Inl err"
    and st': "st' = emit (Log ''Failed to update version'') st1" and code: "code = 1"
    by (auto simp: apply_version_def split: sum.splits)
  have "files st1 workspace_manifest = files st workspace_manifest"
    unfolding st1 using manifests_differ by (simp add: emit_def)
  with updateWorkspaceVersion_failure [OF w]
  have fail: "files st workspace_manifest = None \<or> \<not> writable e workspace_manifest" by simp
  have "trace st' = trace st @
          [Wrote quiche_manifest
             (string_replace version_line False (''$1'' @ newVersion st @ ''$2'') content1),
           Log ''Failed to update version'']"
    and "files st' = (files st)(quiche_manifest \<mapsto>
             string_replace version_line False (''$1'' @ newVersion st @ ''$2'') content1)"
    and "newVersion st' = newVersion st" and "versionChanged st' = versionChanged st"
    unfolding st' st1 by (simp_all add: emit_def)
  with c1 fail code show ?thesis by simp
qed

lemma choose_version_stop:
  assumes "choose_version op cp action st = Inl (code, st')"
  shows "code = 0 \<and> files st' = files st \<and> versionChanged st' = versionChanged st \<and>
         trace st' = trace st @ [Prompt ''Enter version:'', Log ''Workflow cancelled.'']"
  using assms
  by (auto simp: choose_version_def emit_def split: version_action.splits option.splits)

lemma choose_version_go:
  assumes "choose_version op cp action st = Inr st'" and "action \<noteq> Skip"
  shows "files st' = files st \<and> versionChanged st' = versionChanged st \<and>
         (trace st' = trace st \<or> trace st' = trace st @ [Prompt ''Enter version:'']) \<and>
         list_all version_char (newVersion st') \<and> newVersion st' \<noteq> []"
proof (cases action)
  case Skip
  with assms show ?thesis by simp
next
  case (Bump kind)
  with assms have "st' = st\<lparr>newVersion := formatVersion (bumpVersion cp kind)\<rparr>"
    by (simp add: choose_version_def)
  then show ?thesis
    by (simp add: formatVersion_chars formatVersion_nonempty)
next
  case Custom
  with assms obtain v where v: "custom_answer op = Some v"
    and st': "st' = (emit (Prompt ''Enter version:'') st)\<lparr>newVersion := v\<rparr>"
    by (auto simp: choose_version_def split: option.splits)
  from valid_custom_chars [OF custom_answer_valid [OF v]] st' show ?thesis
    by (simp add: emit_def)
qed

text \<open>The ways in which the version phase ends.\<close>

lemma version_phase_cases:
  obtains
    (fatal) "version_phase e op st = Inl (1, emit (Log ''Fatal error:'') st)"
  | (cancelled) "version_phase e op st =
       Inl (0, emit (Log ''Workflow cancelled.'') (emit (Prompt ''Version update:'') st))"
  | (skip) content where "versionAction op = Some Skip"
      "files st quiche_manifest = Some content"
      "version_phase e op st =
         Inr ((emit (Prompt ''Version update:'') st)
              \<lparr>newVersion := current_version_of content, versionChanged := False\<rparr>)"
  | (update) content cp action where "versionAction op = Some action" "action \<noteq> Skip"
      "files st quiche_manifest = Some content"
      "version_phase e op st =
         (case choose_version op cp action
                 ((emit (Prompt ''Version update:'') st)
                  \<lparr>newVersion := current_version_of content, versionChanged := False\<rparr>) of
            Inl stop \<Rightarrow> Inl stop
          | Inr st3 \<Rightarrow> apply_version e st3)"
proof (cases "getCurrentVersion st")
  case (Inl err)
  then have "version_phase e op st = Inl (1, emit (Log ''Fatal error:'') st)"
    by (simp add: version_phase_def)
  then show ?thesis by (rule fatal)
next
  case (Inr cur)
  then obtain content where c: "files st quiche_manifest = Some content"
    and cur: "cur = current_version_of content"
    by (auto simp: getCurrentVersion_def readFileSync_def split: option.splits)
  show ?thesis
  proof (cases "parseVersion cur")
    case (Inl err)
    with Inr have "version_phase e op st = Inl (1, emit (Log ''Fatal error:'') st)"
      by (simp add: version_phase_def)
    then show ?thesis by (rule fatal)
  next
    case parsed: (Inr cp)
    show ?thesis
    proof (cases "versionAction op")
      case None
      with Inr parsed have "version_phase e op st =
          Inl (0, emit (Log ''Workflow cancelled.'') (emit (Prompt ''Version update:'') st))"
        by (simp add: version_phase_def)
      then show ?thesis by (rule cancelled)
    next
      case (Some action)
      show ?thesis
      proof (cases "action = Skip")
        case True
        with Some Inr parsed cur have "version_phase e op st =
          Inr ((emit (Prompt ''Version update:'') st)
              \<lparr>newVersion := current_version_of content, versionChanged := False\<rparr>)"
          by (simp add: version_phase_def)
        with True Some c show ?thesis by (auto intro: skip)
      next
        case False
        with Some Inr parsed cur have "version_phase e op st =
         (case choose_version op cp action
                 ((emit (Prompt ''Version update:'') st)
                  \<lparr>newVersion := current_version_of content, versionChanged := False\<rparr>) of
            Inl stop \<Rightarrow> Inl stop
          | Inr st3 \<Rightarrow> apply_version e st3)"
          by (simp add: version_phase_def)
        with False Some c show ?thesis by (auto intro: update)
      qed
    qed
  qed
qed

lemma version_phase_go:
  assumes "version_phase e op st = Inr st'"
  shows "\<exists>content. files st quiche_manifest = Some content \<and>
    ((versionAction op = Some Skip \<and> newVersion st' = current_version_of content \<and>
      files st' = files st \<and> \<not> versionChanged st' \<and>
      trace st' = trace st @ [Prompt ''Version update:'']) \<or>
     (versionAction op \<noteq> Some Skip \<and> versionChanged st' \<and>
      list_all version_char (newVersion st') \<and> newVersion st' \<noteq> [] \<and>
      writable e quiche_manifest \<and> writable e workspace_manifest \<and>
      (\<exists>content2 es. files st workspace_manifest = Some content2 \<and>
         files st' = (files st)
           (quiche_manifest \<mapsto>
              string_replace version_line False (''$1'' @ newVersion st' @ ''$2'') content,
            workspace_manifest \<mapsto>
              string_replace workspace_line False (''$1'' @ newVersion st' @ ''$2'') content2) \<and>
         list_all (\<lambda>ev. \<not> is_exec ev \<and> \<not> is_wrote ev \<and> ev \<noteq> dirty_warning \<and> ev \<noteq> dirty_prompt) es \<and>
         trace st' = trace st @ es @
           [Wrote quiche_manifest
              (string_replace version_line False (''$1'' @ newVersion st' @ ''$2'') content),
            Wrote workspace_manifest
              (string_replace workspace_line False (''$1'' @ newVersion st' @ ''$2'') content2),
            Log (''Updated version to '' @ newVersion st')])))"
proof (cases rule: version_phase_cases [of e op st])
  case fatal
  with assms show ?thesis by simp
next
  case cancelled
  with assms show ?thesis by simp
next
  case (skip content)
  with assms show ?thesis by (auto simp: emit_def)
next
  case (update content cp action)
  let ?st2 = "(emit (Prompt ''Version update:'') st)
                  \<lparr>newVersion := current_version_of content, versionChanged := False\<rparr>"
  from update(4) assms obtain st3 where ch: "choose_version op cp action ?st2 = Inr st3"
    and ap: "apply_version e st3 = Inr st'"
    by (auto split: sum.splits)
  from choose_version_go [OF ch update(2)]
  have f3: "files st3 = files st" and nv3: "list_all version_char (newVersion st3)" "newVersion st3 \<noteq> []"
    and t3: "trace st3 = trace st @ [Prompt ''Version update:''] \<or>
             trace st3 = trace st @ [Prompt ''Version update:'', Prompt ''Enter version:'']"
    by (auto simp: emit_def)
  from apply_version_done [OF ap] obtain content1 content2 where
    d: "files st3 quiche_manifest = Some content1" "files st3 workspace_manifest = Some content2"
      "writable e quiche_manifest" "writable e workspace_manifest"
      "trace st' = trace st3 @
        [Wrote quiche_manifest
           (string_replace version_line False (''$1'' @ newVersion st3 @ ''$2'') content1),
         Wrote workspace_manifest
           (string_replace workspace_line False (''$1'' @ newVersion st3 @ ''$2'') content2),
         Log (''Updated version to '' @ newVersion st3)]"
      "files st' = (files st3)
        (quiche_manifest \<mapsto>
           string_replace version_line False (''$1'' @ newVersion st3 @ ''$2'') content1,
         workspace_manifest \<mapsto>
           string_replace workspace_line False (''$1'' @ newVersion st3 @ ''$2'') content2)"
      "newVersion st' = newVersion st3" "versionChanged st'"
    by blast
  from d(1) f3 update(3) have c1: "content1 = content" by simp
  from t3 obtain es where es: "trace st3 = trace st @ es"
    "list_all (\<lambda>ev. \<not> is_exec ev \<and> \<not> is_wrote ev \<and> ev \<noteq> dirty_warning \<and> ev \<noteq> dirty_prompt) es"
    by (auto simp: dirty_warning_def dirty_prompt_def)
  from update(1,2) have ns: "versionAction op \<noteq> Some Skip" by simp
  show ?thesis
    using update(3) ns d(2-4,8) nv3 es
    unfolding d(7) d(6) d(5) f3 c1 es(1) by auto
qed

lemma version_phase_stop:
  assumes "version_phase e op st = Inl (code, st')"
  shows "(versionChanged st' \<longrightarrow> versionChanged st) \<and>
    (\<exists>es. trace st' = trace st @ es \<and>
       list_all (\<lambda>ev. \<not> is_exec ev \<and> ev \<noteq> dirty_warning \<and> ev \<noteq> dirty_prompt) es \<and>
       ((list_all (\<lambda>ev. \<not> is_wrote ev) es \<and> files st' = files st) \<or>
        (\<exists>content pre. files st quiche_manifest = Some content \<and> writable e quiche_manifest \<and>
           (files st workspace_manifest = None \<or> \<not> writable e workspace_manifest) \<and> code = 1 \<and>
           list_all (\<lambda>ev. \<not> is_wrote ev) pre \<and>
           es = pre @ [Wrote quiche_manifest
               (string_replace version_line False (''$1'' @ newVersion st' @ ''$2'') content),
             Log ''Failed to update version''] \<and>
           files st' = (files st)(quiche_manifest \<mapsto>
               string_replace version_line False (''$1'' @ newVersion st' @ ''$2'') content))))"
proof (cases rule: version_phase_cases [of e op st])
  case fatal
  with assms show ?thesis by (auto simp: emit_def dirty_warning_def dirty_prompt_def)
next
  case cancelled
  with assms show ?thesis by (auto simp: emit_def dirty_warning_def dirty_prompt_def)
next
  case (skip content)
  with assms show ?thesis by simp
next
  case (update content cp action)
  let ?st2 = "(emit (Prompt ''Version update:'') st)
                  \<lparr>newVersion := current_version_of content, versionChanged := False\<rparr>"
  show ?thesis
  proof (cases "choose_version op cp action ?st2")
    case (Inl stop)
    with update(4) assms have "choose_version op cp action ?st2 = Inl (code, st')" by simp
    from choose_version_stop [OF this] show ?thesis
      by (auto simp: emit_def dirty_warning_def dirty_prompt_def)
  next
    case (Inr st3)
    with update(4) assms have ap: "apply_version e st3 = Inl (code, st')" by simp
    from choose_version_go [OF Inr update(2)]
    have f3: "files st3 = files st" and v3: "\<not> versionChanged st3"
      and t3: "trace st3 = trace st @ [Prompt ''Version update:''] \<or>
             trace st3 = trace st @ [Prompt ''Version update:'', Prompt ''Enter version:'']"
      by (auto simp: emit_def)
    from t3 obtain pre where pre: "trace st3 = trace st @ pre"
      "list_all (\<lambda>ev. \<not> is_exec ev \<and> \<not> is_wrote ev \<and> ev \<noteq> dirty_warning \<and> ev \<noteq> dirty_prompt) pre"
      by (auto simp: dirty_warning_def dirty_prompt_def)
    then have pre': "list_all (\<lambda>ev. \<not> is_exec ev \<and> ev \<noteq> dirty_warning \<and> ev \<noteq> dirty_prompt) pre"
      "list_all (\<lambda>ev. \<not> is_wrote ev) pre"
      by (auto simp: list_all_iff)
    from apply_version_stop [OF ap]
    have code: "code = 1" and nv: "newVersion st' = newVersion st3"
      and vc: "versionChanged st' = versionChanged st3"
      and alt: "(trace st' = trace st3 @ [Log ''Failed to update version''] \<and> files st' = files st3 \<and>
        (files st3 quiche_manifest = None \<or> \<not> writable e quiche_manifest)) \<or>
      (\<exists>content1. files st3 quiche_manifest = Some content1 \<and> writable e quiche_manifest \<and>
        (files st3 workspace_manifest = None \<or> \<not> writable e workspace_manifest) \<and>
        trace st' = trace st3 @
          [Wrote quiche_manifest
             (string_replace version_line False (''$1'' @ newVersion st3 @ ''$2'') content1),
           Log ''Failed to update version''] \<and>
        files st' = (files st3)(quiche_manifest \<mapsto>
             string_replace version_line False (''$1'' @ newVersion st3 @ ''$2'') content1))"
      by blast+
    from alt show ?thesis
    proof
      assume a: "trace st' = trace st3 @ [Log ''Failed to update version''] \<and> files st' = files st3 \<and>
        (files st3 quiche_manifest = None \<or> \<not> writable e quiche_manifest)"
      then have "trace st' = trace st @ (pre @ [Log ''Failed to update version''])"
        using pre(1) by simp
      moreover have "list_all (\<lambda>ev. \<not> is_exec ev \<and> ev \<noteq> dirty_warning \<and> ev \<noteq> dirty_prompt)
          (pre @ [Log ''Failed to update version''])"
        using pre'(1) by (simp add: dirty_warning_def dirty_prompt_def)
      moreover have "list_all (\<lambda>ev. \<not> is_wrote ev) (pre @ [Log ''Failed to update version''])"
        using pre'(2) by simp
      moreover have "files st' = files st"
        using a f3 by simp
      ultimately have "\<exists>es. trace st' = trace st @ es \<and>
         list_all (\<lambda>ev. \<not> is_exec ev \<and> ev \<noteq> dirty_warning \<and> ev \<noteq> dirty_prompt) es \<and>
         list_all (\<lambda>ev. \<not> is_wrote ev) es \<and> files st' = files st"
        by (intro exI [of _ "pre @ [Log ''Failed to update version'']"]) simp
      with vc v3 show ?thesis by auto
    next
      assume "\<exists>content1. files st3 quiche_manifest = Some content1 \<and> writable e quiche_manifest \<and>
        (files st3 workspace_manifest = None \<or> \<not> writable e workspace_manifest) \<and>
        trace st' = trace st3 @
          [Wrote quiche_manifest
             (string_replace version_line False (''$1'' @ newVersion st3 @ ''$2'') content1),
           Log ''Failed to update version''] \<and>
        files st' = (files st3)(quiche_manifest \<mapsto>
             string_replace version_line False (''$1'' @ newVersion st3 @ ''$2'') content1)"
      then obtain content1 where b: "files st quiche_manifest = Some content1"
        "writable e quiche_manifest"
        "files st workspace_manifest = None \<or> \<not> writable e workspace_manifest"
        "trace st' = trace st @ (pre @
          [Wrote quiche_manifest
             (string_replace version_line False (''$1'' @ newVersion st' @ ''$2'') content1),
           Log ''Failed to update version''])"
        "files st' = (files st)(quiche_manifest \<mapsto>
             string_replace version_line False (''$1'' @ newVersion st' @ ''$2'') content1)"
        unfolding f3 nv pre(1) by auto
      have "list_all (\<lambda>ev. \<not> is_exec ev \<and> ev \<noteq> dirty_warning \<and> ev \<noteq> dirty_prompt)
          (pre @ [Wrote quiche_manifest
             (string_replace version_line False (''$1'' @ newVersion st' @ ''$2'') content1),
           Log ''Failed to update version''])"
        using pre'(1) by (simp add: dirty_warning_def dirty_prompt_def)
      with b pre'(2) code have "\<exists>es. trace st' = trace st @ es \<and>
         list_all (\<lambda>ev. \<not> is_exec ev \<and> ev \<noteq> dirty_warning \<and> ev \<noteq> dirty_prompt) es \<and>
         (\<exists>content pre. files st quiche_manifest = Some content \<and> writable e quiche_manifest \<and>
           (files st workspace_manifest = None \<or> \<not> writable e workspace_manifest) \<and> code = 1 \<and>
           list_all (\<lambda>ev. \<not> is_wrote ev) pre \<and>
           es = pre @ [Wrote quiche_manifest
               (string_replace version_line False (''$1'' @ newVersion st' @ ''$2'') content),
             Log ''Failed to update version''] \<and>
           files st' = (files st)(quiche_manifest \<mapsto>
               string_replace version_line False (''$1'' @ newVersion st' @ ''$2'') content))"
        by (intro exI [of _ "pre @ [Wrote quiche_manifest
             (string_replace version_line False (''$1'' @ newVersion st' @ ''$2'') content1),
           Log ''Failed to update version'']"] conjI exI [of _ content1] exI [of _ pre]) simp_all
      with vc v3 show ?thesis by auto
    qed
  qed
qed

lemma writes_to_wrote: "writes_to p ev \<Longrightarrow> is_wrote ev"
  by (cases ev) simp_all

lemma no_writes_filter: "list_all (\<lambda>ev. \<not> is_wrote ev) es \<Longrightarrow> filter (writes_to p) es = []"
  by (auto simp: list_all_iff filter_empty_conv dest: writes_to_wrote)

lemma check_phase_shape:
  "\<exists>es. trace (end_state (check_phase e op st)) = trace st @ es \<and>
        list_all (\<lambda>ev. \<not> is_wrote ev \<and> ev \<noteq> build_invocation) es \<and>
        files (end_state (check_phase e op st)) = files st \<and>
        versionChanged (end_state (check_phase e op st)) = versionChanged st"
  by (auto simp: check_phase_def checkGitClean_def exec_def Let_def emit_def build_invocation_def
      split: exec_result.splits option.splits bool.splits prod.splits)

lemma check_phase_failed_query:
  assumes "execSync e (calls st) ''git status --porcelain'' = Throws"
  shows "\<exists>st'. check_phase e op st = Inr st' \<and>
     trace st' = trace st @ [Exec ''git status --porcelain'', Log ''Git working directory is clean''] \<and>
     files st' = files st"
  using assms
  by (simp add: check_phase_def checkGitClean_def exec_def Let_def emit_def)

lemma version_phase_shape:
  "\<exists>es. trace (end_state (version_phase e op st)) = trace st @ es \<and>
        list_all (\<lambda>ev. \<not> is_exec ev \<and> ev \<noteq> dirty_warning \<and> ev \<noteq> dirty_prompt) es \<and>
        length (filter (writes_to p) es) \<le> 1"
proof (cases "version_phase e op st")
  case (Inl stop)
  obtain code st' where stop: "stop = (code, st')" by (cases stop)
  from version_phase_stop [OF Inl [unfolded stop]] obtain es where
    es: "trace st' = trace st @ es"
      "list_all (\<lambda>ev. \<not> is_exec ev \<and> ev \<noteq> dirty_warning \<and> ev \<noteq> dirty_prompt) es"
    and alt: "list_all (\<lambda>ev. \<not> is_wrote ev) es \<or>
       (\<exists>c pre. list_all (\<lambda>ev. \<not> is_wrote ev) pre \<and>
           es = pre @ [Wrote quiche_manifest c, Log ''Failed to update version''])"
    by blast
  from alt have "length (filter (writes_to p) es) \<le> 1"
    by (auto simp: no_writes_filter)
  with es Inl stop show ?thesis by auto
next
  case (Inr st')
  from version_phase_go [OF Inr] have
    "(trace st' = trace st @ [Prompt ''Version update:'']) \<or>
     (\<exists>es c1 c2 l. list_all (\<lambda>ev. \<not> is_exec ev \<and> \<not> is_wrote ev \<and> ev \<noteq> dirty_warning \<and> ev \<noteq> dirty_prompt) es \<and>
         trace st' = trace st @ es @
           [Wrote quiche_manifest c1, Wrote workspace_manifest c2, Log (''Updated version to '' @ l)])"
    by blast
  then show ?thesis
  proof
    assume "trace st' = trace st @ [Prompt ''Version update:'']"
    with Inr show ?thesis by (simp add: dirty_warning_def dirty_prompt_def)
  next
    assume "\<exists>es c1 c2 l. list_all (\<lambda>ev. \<not> is_exec ev \<and> \<not> is_wrote ev \<and> ev \<noteq> dirty_warning \<and> ev \<noteq> dirty_prompt) es \<and>
         trace st' = trace st @ es @
           [Wrote quiche_manifest c1, Wrote workspace_manifest c2, Log (''Updated version to '' @ l)]"
    then obtain es c1 c2 l where
      es: "list_all (\<lambda>ev. \<not> is_exec ev \<and> \<not> is_wrote ev \<and> ev \<noteq> dirty_warning \<and> ev \<noteq> dirty_prompt) es"
      and t: "trace st' = trace st @ (es @
           [Wrote quiche_manifest c1, Wrote workspace_manifest c2, Log (''Updated version to '' @ l)])"
      by auto
    from es have nw: "list_all (\<lambda>ev. \<not> is_wrote ev) es"
      and ne: "list_all (\<lambda>ev. \<not> is_exec ev \<and> ev \<noteq> dirty_warning \<and> ev \<noteq> dirty_prompt) es"
      by (auto simp: list_all_iff)
    have "length (filter (writes_to p) (es @
           [Wrote quiche_manifest c1, Wrote workspace_manifest c2, Log (''Updated version to '' @ l)])) \<le> 1"
      using manifests_differ by (auto simp: no_writes_filter [OF nw])
    moreover have "list_all (\<lambda>ev. \<not> is_exec ev \<and> ev \<noteq> dirty_warning \<and> ev \<noteq> dirty_prompt) (es @
           [Wrote quiche_manifest c1, Wrote workspace_manifest c2, Log (''Updated version to '' @ l)])"
      using ne by (simp add: dirty_warning_def dirty_prompt_def)
    ultimately show ?thesis using t Inr by auto
  qed
qed

text \<open>The trace of a whole run: the part up to the start of the build phase
  holds no build invocation and at most one write to each path; the rest holds
  no write.\<close>

lemma main_trace:
  "\<exists>pre post. trace (snd (main e op st)) = trace st @ pre @ post \<and>
     trace (end_state (before_build e op st)) = trace st @ pre \<and>
     list_all (\<lambda>ev. ev \<noteq> build_invocation) pre \<and>
     length (filter (writes_to p) pre) \<le> 1 \<and>
     list_all (\<lambda>ev. \<not> is_wrote ev) post"
proof -
  obtain es1 where c: "trace (end_state (check_phase e op st)) = trace st @ es1"
    "list_all (\<lambda>ev. \<not> is_wrote ev \<and> ev \<noteq> build_invocation) es1"
    using check_phase_shape [of e op st] by blast
  then have c': "list_all (\<lambda>ev. \<not> is_wrote ev) es1" "list_all (\<lambda>ev. ev \<noteq> build_invocation) es1"
    by (auto simp: list_all_iff)
  have pre: "\<exists>pre. trace (end_state (before_build e op st)) = trace st @ pre \<and>
     list_all (\<lambda>ev. ev \<noteq> build_invocation) pre \<and> length (filter (writes_to p) pre) \<le> 1"
  proof (cases "check_phase e op st")
    case (Inl stop)
    then have "end_state (before_build e op st) = end_state (check_phase e op st)"
      by (simp add: before_build_def)
    with c c' show ?thesis by (auto simp: no_writes_filter)
  next
    case (Inr st1)
    then have b: "before_build e op st = version_phase e op st1"
      by (simp add: before_build_def)
    from c(1) Inr have t1: "trace st1 = trace st @ es1" by simp
    obtain es2 where v: "trace (end_state (version_phase e op st1)) = trace st1 @ es2"
      "list_all (\<lambda>ev. \<not> is_exec ev \<and> ev \<noteq> dirty_warning \<and> ev \<noteq> dirty_prompt) es2"
      "length (filter (writes_to p) es2) \<le> 1"
      using version_phase_shape [of e op st1 p] by blast
    from v(2) have "list_all (\<lambda>ev. ev \<noteq> build_invocation) es2"
      by (auto simp: list_all_iff build_invocation_def)
    with c' v(3) have "list_all (\<lambda>ev. ev \<noteq> build_invocation) (es1 @ es2)"
      "length (filter (writes_to p) (es1 @ es2)) \<le> 1"
      by (simp_all add: no_writes_filter)
    moreover have "trace (end_state (before_build e op st)) = trace st @ (es1 @ es2)"
      unfolding b v(1) t1 by simp
    ultimately show ?thesis by blast
  qed
  then obtain pre where p: "trace (end_state (before_build e op st)) = trace st @ pre"
     "list_all (\<lambda>ev. ev \<noteq> build_invocation) pre" "length (filter (writes_to p) pre) \<le> 1"
    by blast
  show ?thesis
  proof (cases "before_build e op st")
    case (Inl stop)
    then have "snd (main e op st) = end_state (before_build e op st)"
      by (cases stop) (simp add: main_def)
    with p have "trace (snd (main e op st)) = trace st @ pre @ [] \<and>
      trace (end_state (before_build e op st)) = trace st @ pre \<and>
      list_all (\<lambda>ev. ev \<noteq> build_invocation) pre \<and> length (filter (writes_to p) pre) \<le> 1 \<and>
      list_all (\<lambda>ev. \<not> is_wrote ev) []"
      by simp
    then show ?thesis by blast
  next
    case (Inr st2)
    then have m: "main e op st = from_build e op st2"
      by (simp add: main_def)
    from continues_from_build [of st2 e op] obtain post where
      post: "trace (snd (from_build e op st2)) = trace st2 @ post" "list_all late_event post"
      by (auto simp: continues_def)
    from post(2) have "list_all (\<lambda>ev. \<not> is_wrote ev) post"
      by (auto simp: list_all_iff late_event_def)
    moreover from p(1) Inr have "trace st2 = trace st @ pre" by simp
    ultimately have "trace (snd (main e op st)) = trace st @ pre @ post \<and>
      trace (end_state (before_build e op st)) = trace st @ pre \<and>
      list_all (\<lambda>ev. ev \<noteq> build_invocation) pre \<and> length (filter (writes_to p) pre) \<le> 1 \<and>
      list_all (\<lambda>ev. \<not> is_wrote ev) post"
      using p post(1) m by simp
    then show ?thesis by blast
  qed
qed

section \<open>A failing status query\<close>

lemma main_after_check:
  assumes "check_phase e op st = Inr st1"
  shows "\<exists>es. trace (snd (main e op st)) = trace st1 @ es \<and>
           list_all (\<lambda>ev. ev \<noteq> dirty_warning \<and> ev \<noteq> dirty_prompt) es"
proof -
  obtain es2 where v: "trace (end_state (version_phase e op st1)) = trace st1 @ es2"
    "list_all (\<lambda>ev. \<not> is_exec ev \<and> ev \<noteq> dirty_warning \<and> ev \<noteq> dirty_prompt) es2"
    using version_phase_shape [of e op st1 quiche_manifest] by blast
  then have v': "list_all (\<lambda>ev. ev \<noteq> dirty_warning \<and> ev \<noteq> dirty_prompt) es2"
    by (auto simp: list_all_iff)
  have b: "before_build e op st = version_phase e op st1"
    using assms by (simp add: before_build_def)
  show ?thesis
  proof (cases "version_phase e op st1")
    case (Inl stop)
    with b have "snd (main e op st) = end_state (version_phase e op st1)"
      by (cases stop) (simp add: main_def)
    with v(1) v' show ?thesis by auto
  next
    case (Inr st2)
    with b have m: "main e op st = from_build e op st2"
      by (simp add: main_def)
    from continues_from_build [of st2 e op] obtain post where
      post: "trace (snd (from_build e op st2)) = trace st2 @ post" "list_all late_event post"
      by (auto simp: continues_def)
    from post(2) have "list_all (\<lambda>ev. ev \<noteq> dirty_warning \<and> ev \<noteq> dirty_prompt) post"
      by (auto simp: list_all_iff late_event_def)
    with v' have "list_all (\<lambda>ev. ev \<noteq> dirty_warning \<and> ev \<noteq> dirty_prompt) (es2 @ post)"
      by simp
    moreover have "trace (snd (main e op st)) = trace st1 @ (es2 @ post)"
      using m post(1) v(1) Inr by simp
    ultimately show ?thesis by blast
  qed
qed

text \<open>
  C10. When the status query itself fails, the silent \<open>exec\<close> returns the empty
  text, \<open>checkGitClean\<close> answers that the tree is clean, and the run starts with
  the query and the message that the tree is clean: neither the warning about
  uncommitted changes nor the question whether to continue occurs anywhere in
  the run, whatever the operator would have answered.
\<close>

theorem failed_status_query_reads_clean:
  assumes "execSync e 0 ''git status --porcelain'' = Throws"
  shows "fst (exec e ''git status --porcelain'' True (start fs)) = Some []
    \<and> fst (checkGitClean e (start fs))
    \<and> take 2 (trace (snd (main e op (start fs)))) =
        [Exec ''git status --porcelain'', Log ''Git working directory is clean'']
    \<and> dirty_warning \<notin> set (trace (snd (main e op (start fs))))
    \<and> dirty_prompt \<notin> set (trace (snd (main e op (start fs))))"
proof -
  have q: "execSync e (calls (start fs)) ''git status --porcelain'' = Throws"
    using assms by (simp add: start_def)
  have x: "fst (exec e ''git status --porcelain'' True (start fs)) = Some []"
    using q by (simp add: exec_def Let_def)
  then have g: "fst (checkGitClean e (start fs))"
    by (auto simp: checkGitClean_def Let_def split: prod.splits)
  from check_phase_failed_query [OF q, of op] obtain st1 where
    c: "check_phase e op (start fs) = Inr st1"
    and t1: "trace st1 = [Exec ''git status --porcelain'', Log ''Git working directory is clean'']"
    by (auto simp: start_def)
  from main_after_check [OF c] obtain es where
    es: "trace (snd (main e op (start fs))) =
           [Exec ''git status --porcelain'', Log ''Git working directory is clean''] @ es"
      "list_all (\<lambda>ev. ev \<noteq> dirty_warning \<and> ev \<noteq> dirty_prompt) es"
    unfolding t1 by blast
  from es have "take 2 (trace (snd (main e op (start fs)))) =
        [Exec ''git status --porcelain'', Log ''Git working directory is clean'']"
    and "dirty_warning \<notin> set (trace (snd (main e op (start fs))))"
    and "dirty_prompt \<notin> set (trace (snd (main e op (start fs))))"
    by (auto simp: list_all_iff dirty_warning_def dirty_prompt_def)
  with x g show ?thesis by simp
qed

theorem failed_status_query_reads_clean_witness:
  "execSync no_git 0 ''git status --porcelain'' = Throws
   \<and> fst (checkGitClean no_git (start sample_files))
   \<and> proceedDirty ((willing Skip)\<lparr>proceedDirty := Some False\<rparr>) = Some False
   \<and> dirty_prompt \<notin> set (trace (snd (main no_git ((willing Skip)\<lparr>proceedDirty := Some False\<rparr>)
        (start sample_files))))
   \<and> build_invocation \<in> set (trace (snd (main no_git ((willing Skip)\<lparr>proceedDirty := Some False\<rparr>)
        (start sample_files))))"
proof -
  have q: "execSync no_git 0 ''git status --porcelain'' = Throws"
    by (simp add: no_git_def calm_def)
  have b: "build_invocation \<in> set (trace (snd (main no_git ((willing Skip)\<lparr>proceedDirty := Some False\<rparr>)
        (start sample_files))))"
    by code_simp
  from failed_status_query_reads_clean [OF q, of sample_files "(willing Skip)\<lparr>proceedDirty := Some False\<rparr>"]
    q b show ?thesis by simp
qed

section \<open>Writing the version\<close>



section \<open>Reading the version\<close>








section \<open>The run up to the build phase\<close>

lemma write_before_build:
  assumes tr: "tr = pre @ post"
    and pre: "list_all (\<lambda>ev. ev \<noteq> b) pre" and post: "list_all (\<lambda>ev. \<not> is_wrote ev) post"
    and i: "i < length tr" "is_wrote (tr ! i)" and j: "j < length tr" "tr ! j = b"
  shows "i < j"
proof -
  have "i < length pre"
  proof (rule ccontr)
    assume "\<not> i < length pre"
    with i(1) tr have "tr ! i = post ! (i - length pre)" "i - length pre < length post"
      by (auto simp: nth_append)
    with post have "\<not> is_wrote (tr ! i)"
      by (simp add: list_all_length)
    with i(2) show False by simp
  qed
  moreover have "\<not> j < length pre"
  proof
    assume "j < length pre"
    with tr have "tr ! j = pre ! j" by (simp add: nth_append)
    with pre \<open>j < length pre\<close> have "tr ! j \<noteq> b"
      by (simp add: list_all_length)
    with j(2) show False by simp
  qed
  ultimately show ?thesis by simp
qed

lemma before_build_go:
  assumes "before_build e op st = Inr st2"
  obtains st1 where "check_phase e op st = Inr st1" "version_phase e op st1 = Inr st2"
    "files st1 = files st" "versionChanged st1 = versionChanged st"
proof -
  from assms obtain st1 where c: "check_phase e op st = Inr st1"
    and v: "version_phase e op st1 = Inr st2"
    by (auto simp: before_build_def split: sum.splits)
  from check_phase_shape [of e op st] c have "files st1 = files st" "versionChanged st1 = versionChanged st"
    by auto
  with c v show ?thesis by (rule that)
qed

lemma before_build_stop:
  assumes "before_build e op st = Inl (code, st')"
  shows "(versionChanged st' \<longrightarrow> versionChanged st) \<and>
     files st' workspace_manifest = files st workspace_manifest \<and>
     (files st' quiche_manifest = files st quiche_manifest \<or>
      (\<exists>content. files st quiche_manifest = Some content \<and> writable e quiche_manifest \<and>
         (files st workspace_manifest = None \<or> \<not> writable e workspace_manifest) \<and> code = 1 \<and>
         files st' quiche_manifest =
           Some (string_replace version_line False (''$1'' @ newVersion st' @ ''$2'') content)))"
proof (cases "check_phase e op st")
  case (Inl stop)
  with assms have "end_state (check_phase e op st) = st'"
    by (simp add: before_build_def)
  with check_phase_shape [of e op st] show ?thesis by auto
next
  case (Inr st1)
  with assms have v: "version_phase e op st1 = Inl (code, st')"
    by (simp add: before_build_def)
  from check_phase_shape [of e op st] Inr
  have f1: "files st1 = files st" and v1: "versionChanged st1 = versionChanged st"
    by auto
  from version_phase_stop [OF v] have vc: "versionChanged st' \<longrightarrow> versionChanged st1"
    and alt: "files st' = files st1 \<or>
        (\<exists>content. files st1 quiche_manifest = Some content \<and> writable e quiche_manifest \<and>
           (files st1 workspace_manifest = None \<or> \<not> writable e workspace_manifest) \<and> code = 1 \<and>
           files st' = (files st1)(quiche_manifest \<mapsto>
               string_replace version_line False (''$1'' @ newVersion st' @ ''$2'') content))"
    by blast+
  from alt show ?thesis
  proof
    assume "files st' = files st1"
    with vc f1 v1 show ?thesis by simp
  next
    assume "\<exists>content. files st1 quiche_manifest = Some content \<and> writable e quiche_manifest \<and>
           (files st1 workspace_manifest = None \<or> \<not> writable e workspace_manifest) \<and> code = 1 \<and>
           files st' = (files st1)(quiche_manifest \<mapsto>
               string_replace version_line False (''$1'' @ newVersion st' @ ''$2'') content)"
    then obtain content where c: "files st quiche_manifest = Some content"
      "writable e quiche_manifest"
      "files st workspace_manifest = None \<or> \<not> writable e workspace_manifest" "code = 1"
      "files st' = (files st)(quiche_manifest \<mapsto>
               string_replace version_line False (''$1'' @ newVersion st' @ ''$2'') content)"
      unfolding f1 by blast
    from c(5) manifests_differ have "files st' workspace_manifest = files st workspace_manifest"
      "files st' quiche_manifest =
           Some (string_replace version_line False (''$1'' @ newVersion st' @ ''$2'') content)"
      by simp_all
    with c(1-4) vc v1 show ?thesis by simp
  qed
qed

section \<open>Version and build order\<close>

text \<open>
  C3, as the claim states it, fails in its last part. With a manifest that has
  no version line the workflow reads the default \<open>1.0.0\<close>; after a minor bump it
  holds \<open>1.1.0\<close> in memory, the replacement finds nothing to replace, and the
  build phase starts (and the build is invoked) while the manifest on disk is
  the unchanged text, which holds no version at all.
\<close>

theorem unwritten_version_counterexample:
  "regex_exec version_line False bare_manifest = None
   \<and> \<not> isl (before_build calm (willing (Bump Minor)) (start bare_files))
   \<and> newVersion (projr (before_build calm (willing (Bump Minor)) (start bare_files))) = ''1.1.0''
   \<and> files (projr (before_build calm (willing (Bump Minor)) (start bare_files))) quiche_manifest
       = Some bare_manifest
   \<and> build_invocation \<in> set (trace (snd (main calm (willing (Bump Minor)) (start bare_files))))"
  by code_simp

text \<open>
  C3, amended. In every workflow run each manifest is written at most once,
  every write comes before every build invocation, and, when the manifest has
  a line matching the version pattern, the build phase starts with no build
  invoked so far and with the manifest on disk being the original text with
  the in-memory version between the quotes of that line (the version read
  when the update was skipped, the bumped or custom one otherwise).
\<close>

theorem version_written_before_build:
  "length (filter (writes_to quiche_manifest) (trace (snd (main e op (start fs))))) \<le> 1
   \<and> length (filter (writes_to workspace_manifest) (trace (snd (main e op (start fs))))) \<le> 1
   \<and> (\<forall>i j. i < length (trace (snd (main e op (start fs)))) \<and>
            j < length (trace (snd (main e op (start fs)))) \<and>
            is_wrote (trace (snd (main e op (start fs))) ! i) \<and>
            trace (snd (main e op (start fs))) ! j = build_invocation \<longrightarrow> i < j)
   \<and> (\<forall>st content m.
         before_build e op (start fs) = Inr st \<and> fs quiche_manifest = Some content \<and>
         regex_exec version_line False content = Some m \<longrightarrow>
         main e op (start fs) = from_build e op st \<and>
         build_invocation \<notin> set (trace st) \<and>
         files st quiche_manifest =
           Some (before m @ group1 m @ newVersion st @ group2 m @ after m) \<and>
         newVersion st \<noteq> [] \<and> CHR 0x22 \<notin> set (newVersion st))"
proof -
  let ?tr = "trace (snd (main e op (start fs)))"
  have t0: "trace (start fs) = []" and f0: "files (start fs) = fs"
    by (simp_all add: start_def)
  have count: "length (filter (writes_to p) ?tr) \<le> 1" for p
  proof -
    from main_trace [of e op "start fs" p] obtain pre post where
      "?tr = pre @ post" "length (filter (writes_to p) pre) \<le> 1"
      "list_all (\<lambda>ev. \<not> is_wrote ev) post"
      unfolding t0 by auto
    then show ?thesis by (simp add: no_writes_filter)
  qed
  have order: "i < j" if "i < length ?tr" "j < length ?tr" "is_wrote (?tr ! i)"
    "?tr ! j = build_invocation" for i j
  proof -
    from main_trace [of e op "start fs" quiche_manifest] obtain pre post where
      "?tr = pre @ post" "list_all (\<lambda>ev. ev \<noteq> build_invocation) pre"
      "list_all (\<lambda>ev. \<not> is_wrote ev) post"
      unfolding t0 by auto
    from write_before_build [OF this that(1,3,2,4)] show ?thesis .
  qed
  have start_of_build: "main e op (start fs) = from_build e op st \<and>
         build_invocation \<notin> set (trace st) \<and>
         files st quiche_manifest =
           Some (before m @ group1 m @ newVersion st @ group2 m @ after m) \<and>
         newVersion st \<noteq> [] \<and> CHR 0x22 \<notin> set (newVersion st)"
    if b: "before_build e op (start fs) = Inr st" and c: "fs quiche_manifest = Some content"
      and m: "regex_exec version_line False content = Some m" for st content m
  proof -
    have main: "main e op (start fs) = from_build e op st"
      using b by (simp add: main_def)
    from main_trace [of e op "start fs" quiche_manifest] b obtain pre where
      "trace st = pre" "list_all (\<lambda>ev. ev \<noteq> build_invocation) pre"
      unfolding t0 by auto
    then have nb: "build_invocation \<notin> set (trace st)"
      by (auto simp: list_all_iff)
    from b obtain st1 where v: "version_phase e op st1 = Inr st" and f1: "files st1 = fs"
      by (rule before_build_go) (simp add: f0)
    from version_phase_go [OF v] c f1 have
      alt: "(newVersion st = current_version_of content \<and> files st = fs) \<or>
       (list_all version_char (newVersion st) \<and> newVersion st \<noteq> [] \<and>
        (\<exists>content2. files st = fs
           (quiche_manifest \<mapsto>
              string_replace version_line False (''$1'' @ newVersion st @ ''$2'') content,
            workspace_manifest \<mapsto> content2)))"
      by auto
    from alt have "files st quiche_manifest =
           Some (before m @ group1 m @ newVersion st @ group2 m @ after m) \<and>
         newVersion st \<noteq> [] \<and> CHR 0x22 \<notin> set (newVersion st)"
    proof
      assume a: "newVersion st = current_version_of content \<and> files st = fs"
      then have "newVersion st = field_value m"
        using m by (simp add: current_version_of_def)
      with a c regex_exec_split [OF m] show ?thesis by simp
    next
      assume a: "list_all version_char (newVersion st) \<and> newVersion st \<noteq> [] \<and>
        (\<exists>content2. files st = fs
           (quiche_manifest \<mapsto>
              string_replace version_line False (''$1'' @ newVersion st @ ''$2'') content,
            workspace_manifest \<mapsto> content2))"
      then have plain: "CHR ''$'' \<notin> set (newVersion st)" "CHR 0x22 \<notin> set (newVersion st)"
        using version_char_plain by (auto simp: list_all_iff)
      from a manifests_differ have "files st quiche_manifest =
          Some (string_replace version_line False (''$1'' @ newVersion st @ ''$2'') content)"
        by auto
      with string_replace_version [OF m plain(1)] a plain(2) show ?thesis by simp
    qed
    with main nb show ?thesis by simp
  qed
  from count [of quiche_manifest] count [of workspace_manifest] order start_of_build
  show ?thesis by blast
qed

theorem version_written_before_build_witness:
  \<open>before_build calm (willing (Bump Minor)) (start sample_files) =
      Inr (projr (before_build calm (willing (Bump Minor)) (start sample_files)))
   \<and> sample_files quiche_manifest = Some sample_manifest
   \<and> regex_exec version_line False sample_manifest =
       Some \<lparr>before = ''[package]\<newline>name = "quiche"\<newline>'', group1 = ''version = "'',
             field_value = ''2.3.1'', group2 = ''"'', after = ''\<newline>edition = "2021"\<newline>''\<rparr>
   \<and> newVersion (projr (before_build calm (willing (Bump Minor)) (start sample_files))) = ''2.4.0''
   \<and> files (projr (before_build calm (willing (Bump Minor)) (start sample_files))) quiche_manifest =
       Some ''[package]\<newline>name = "quiche"\<newline>version = "2.4.0"\<newline>edition = "2021"\<newline>''
   \<and> build_invocation \<notin>
       set (trace (projr (before_build calm (willing (Bump Minor)) (start sample_files))))
   \<and> is_wrote (trace (snd (main calm (willing (Bump Minor)) (start sample_files))) ! 4)
   \<and> trace (snd (main calm (willing (Bump Minor)) (start sample_files))) ! 9 = build_invocation
   \<and> 9 < length (trace (snd (main calm (willing (Bump Minor)) (start sample_files))))\<close>
proof -
  let ?b = "before_build calm (willing (Bump Minor)) (start sample_files)"
  have "\<not> isl ?b" by code_simp
  then have b: "?b = Inr (projr ?b)" by (cases ?b) simp_all
  have c: "sample_files quiche_manifest = Some sample_manifest"
    by (simp add: sample_files_def quiche_manifest_def workspace_manifest_def)
  have m: \<open>regex_exec version_line False sample_manifest =
       Some \<lparr>before = ''[package]\<newline>name = "quiche"\<newline>'', group1 = ''version = "'',
             field_value = ''2.3.1'', group2 = ''"'', after = ''\<newline>edition = "2021"\<newline>''\<rparr>\<close>
    by code_simp
  have nv: "newVersion (projr ?b) = ''2.4.0''" by code_simp
  have inv: "is_wrote (trace (snd (main calm (willing (Bump Minor)) (start sample_files))) ! 4)
     \<and> trace (snd (main calm (willing (Bump Minor)) (start sample_files))) ! 9 = build_invocation
     \<and> 9 < length (trace (snd (main calm (willing (Bump Minor)) (start sample_files))))"
    by code_simp
  let ?m = \<open>\<lparr>before = ''[package]\<newline>name = "quiche"\<newline>'', group1 = ''version = "'',
             field_value = ''2.3.1'', group2 = ''"'', after = ''\<newline>edition = "2021"\<newline>''\<rparr>\<close>
  from version_written_before_build [of calm "willing (Bump Minor)" sample_files] b c m
  have "build_invocation \<notin> set (trace (projr ?b)) \<and>
     files (projr ?b) quiche_manifest =
       Some (before ?m @ group1 ?m @ newVersion (projr ?b) @ group2 ?m @ after ?m)"
    by blast
  with b c m nv inv show ?thesis by simp
qed

text \<open>
  C4, as the claim states it, fails in one part. When the workspace manifest
  cannot be written the workflow stops with status 1, but the package manifest,
  rewritten just before, keeps the new version: nothing restores it.
\<close>

theorem partial_version_counterexample:
  \<open>\<not> writable locked_workspace workspace_manifest
   \<and> fst (main locked_workspace (willing (Bump Minor)) (start sample_files)) = 1
   \<and> sample_files quiche_manifest =
       Some ''[package]\<newline>name = "quiche"\<newline>version = "2.3.1"\<newline>edition = "2021"\<newline>''
   \<and> files (snd (main locked_workspace (willing (Bump Minor)) (start sample_files))) quiche_manifest =
       Some ''[package]\<newline>name = "quiche"\<newline>version = "2.4.0"\<newline>edition = "2021"\<newline>''
   \<and> files (snd (main locked_workspace (willing (Bump Minor)) (start sample_files)))
        workspace_manifest = Some sample_workspace\<close>
  by code_simp

text \<open>
  C4, amended. If a version update is asked for and a manifest cannot be read
  or written, the workflow never reaches the build phase: it ends with
  \<open>versionChanged\<close> false and without a build invocation. The workspace
  manifest is left as it was; the package manifest is left as it was too,
  unless it was the workspace manifest that failed, in which case the workflow
  ends with status 1 and the package manifest holds the text already written
  with the new version.
\<close>

theorem failed_update_stops_workflow:
  assumes "versionAction op \<noteq> Some Skip"
    and "\<not> writable e quiche_manifest \<or> \<not> writable e workspace_manifest \<or>
         fs quiche_manifest = None \<or> fs workspace_manifest = None"
  shows "\<not> versionChanged (snd (main e op (start fs)))
    \<and> build_invocation \<notin> set (trace (snd (main e op (start fs))))
    \<and> files (snd (main e op (start fs))) workspace_manifest = fs workspace_manifest
    \<and> (files (snd (main e op (start fs))) quiche_manifest = fs quiche_manifest \<or>
        (\<exists>content. fs quiche_manifest = Some content \<and> writable e quiche_manifest \<and>
           (fs workspace_manifest = None \<or> \<not> writable e workspace_manifest) \<and>
           fst (main e op (start fs)) = 1 \<and>
           files (snd (main e op (start fs))) quiche_manifest =
             Some (string_replace version_line False
                     (''$1'' @ newVersion (snd (main e op (start fs))) @ ''$2'') content)))"
proof -
  have s0: "trace (start fs) = []" "files (start fs) = fs" "\<not> versionChanged (start fs)"
    by (simp_all add: start_def)
  have stop: "\<exists>code st. before_build e op (start fs) = Inl (code, st)"
  proof (cases "before_build e op (start fs)")
    case (Inl stop)
    then show ?thesis by (cases stop) simp
  next
    case (Inr st)
    then obtain st1 where v: "version_phase e op st1 = Inr st" and f1: "files st1 = fs"
      by (rule before_build_go) (simp add: s0)
    from version_phase_go [OF v] assms(1) f1
    have "writable e quiche_manifest \<and> writable e workspace_manifest \<and>
        fs quiche_manifest \<noteq> None \<and> fs workspace_manifest \<noteq> None"
      by auto
    with assms(2) show ?thesis by simp
  qed
  then obtain code st where b: "before_build e op (start fs) = Inl (code, st)"
    by blast
  then have m: "main e op (start fs) = (code, st)"
    by (simp add: main_def)
  from main_trace [of e op "start fs" quiche_manifest] b obtain pre where
    "trace st = pre" "list_all (\<lambda>ev. ev \<noteq> build_invocation) pre"
    unfolding s0 by auto
  then have nb: "build_invocation \<notin> set (trace st)"
    by (auto simp: list_all_iff)
  from before_build_stop [OF b] nb show ?thesis
    unfolding m s0 by (simp add: s0)
qed

theorem failed_update_stops_workflow_witness:
  "versionAction (willing (Bump Minor)) \<noteq> Some Skip
   \<and> \<not> writable locked_workspace workspace_manifest
   \<and> \<not> versionChanged (snd (main locked_workspace (willing (Bump Minor)) (start sample_files)))
   \<and> build_invocation \<notin> set (trace (snd (main locked_workspace (willing (Bump Minor))
        (start sample_files))))
   \<and> files (snd (main locked_workspace (willing (Bump Minor)) (start sample_files)))
        workspace_manifest = sample_files workspace_manifest"
proof -
  have a: "versionAction (willing (Bump Minor)) \<noteq> Some Skip"
    by (simp add: willing_def)
  have w: "\<not> writable locked_workspace workspace_manifest"
    by (simp add: locked_workspace_def)
  then have f: "\<not> writable locked_workspace quiche_manifest \<or>
      \<not> writable locked_workspace workspace_manifest \<or>
      sample_files quiche_manifest = None \<or> sample_files workspace_manifest = None"
    by simp
  from failed_update_stops_workflow [OF a f] a w show ?thesis by simp
qed

end
